theory Spec2Isabelle
  imports Main
begin

section \<open>Python strings\<close>

text \<open>
  A Python \<open>str\<close> is a sequence of Unicode code points. A code point is modelled by its
  number (what \<open>ord\<close> returns), a string by the list of its code points. \<open>lit\<close> turns an
  ASCII literal into such a list.
\<close>

type_synonym str = "nat list"

abbreviation (input) ord :: "char \<Rightarrow> nat" where
  "ord c \<equiv> of_char c"

definition lit :: "string \<Rightarrow> str" where
  "lit cs = map of_char cs"

text \<open>
  The exceptions of the program. \<open>ValueError msg\<close> is the \<open>ValueError\<close> the parser itself
  raises, with its message. The library calls it makes raise their own: \<open>IntValueError\<close> is
  the \<open>ValueError\<close> of \<open>int\<close> (its message names the literal or the digit limit),
  \<open>IDNAError\<close> that of \<open>idna.encode\<close>, \<open>UnicodeDecodeError\<close> that of
  \<open>bytes.decode('ascii')\<close>.
\<close>

datatype error = ValueError string | IntValueError | IDNAError | UnicodeDecodeError

text \<open>
  The library functions whose tables are not part of the program are parameters: Unicode
  case mapping and the Unicode digit property outside ASCII, the \<open>int\<close> conversion of a
  digit string that is not a short run of ASCII digits, \<open>urllib.parse.unquote\<close> on a string
  that has a percent sign, and \<open>idna.encode\<close>; \<open>None\<close> is the call raising. On ASCII the
  builtins are written out below.
\<close>

record pylib =
  lower_u :: "str \<Rightarrow> str"
  isdigit_u :: "nat \<Rightarrow> bool"
  int_u :: "str \<Rightarrow> nat option"
  unquote_pct :: "str \<Rightarrow> str option"
  idna_encode :: "str \<Rightarrow> str option"

text \<open>\<open>str.isspace\<close> of one code point: the white space that \<open>str.strip()\<close> removes.\<close>

definition py_isspace :: "nat \<Rightarrow> bool" where
  "py_isspace c \<longleftrightarrow>
     (9 \<le> c \<and> c \<le> 13) \<or> (28 \<le> c \<and> c \<le> 32) \<or> c = 133 \<or> c = 160 \<or> c = 5760 \<or>
     (8192 \<le> c \<and> c \<le> 8202) \<or> c = 8232 \<or> c = 8233 \<or> c = 8239 \<or> c = 8287 \<or> c = 12288"

definition py_strip :: "str \<Rightarrow> str" where
  "py_strip s = rev (dropWhile py_isspace (rev (dropWhile py_isspace s)))"

text \<open>\<open>s.strip(chars)\<close> for a one-character argument.\<close>

definition py_strip_char :: "nat \<Rightarrow> str \<Rightarrow> str" where
  "py_strip_char d s = rev (dropWhile (\<lambda>c. c = d) (rev (dropWhile (\<lambda>c. c = d) s)))"

definition is_ascii :: "nat \<Rightarrow> bool" where
  "is_ascii c \<longleftrightarrow> c < 128"

definition ascii_lower :: "nat \<Rightarrow> nat" where
  "ascii_lower c = (if 65 \<le> c \<and> c \<le> 90 then c + 32 else c)"

definition py_lower :: "pylib \<Rightarrow> str \<Rightarrow> str" where
  "py_lower L s = (if list_all is_ascii s then map ascii_lower s else lower_u L s)"

definition ascii_digit :: "nat \<Rightarrow> bool" where
  "ascii_digit c \<longleftrightarrow> 48 \<le> c \<and> c \<le> 57"

definition py_isdigit :: "pylib \<Rightarrow> nat \<Rightarrow> bool" where
  "py_isdigit L c = (if is_ascii c then ascii_digit c else isdigit_u L c)"

text \<open>
  \<open>int(s)\<close>: the decimal value of a run of ASCII digits. Longer strings than 4300 digits
  (where an interpreter may refuse the conversion) and digits outside ASCII are the
  library's.
\<close>

definition py_int :: "pylib \<Rightarrow> str \<Rightarrow> error + nat" where
  "py_int L s =
     (if s \<noteq> [] \<and> list_all ascii_digit s \<and> length s \<le> 4300
      then Inr (foldl (\<lambda>a c. 10 * a + (c - 48)) 0 s)
      else (case int_u L s of None \<Rightarrow> Inl IntValueError | Some n \<Rightarrow> Inr n))"

text \<open>\<open>str(n)\<close> of a natural number: its decimal digits.\<close>

function py_str :: "nat \<Rightarrow> str" where
  "py_str n = (if n < 10 then [48 + n] else py_str (n div 10) @ [48 + n mod 10])"
  by pat_completeness auto
termination
  by (relation "measure (\<lambda>n. n)") auto

declare py_str.simps [simp del]

text \<open>\<open>s.split(d)\<close> and \<open>d.join(xs)\<close> for a one-character separator.\<close>

fun py_split :: "nat \<Rightarrow> str \<Rightarrow> str list" where
  "py_split d [] = [[]]"
| "py_split d (c # cs) =
     (if c = d then [] # py_split d cs
      else (case py_split d cs of [] \<Rightarrow> [[c]] | x # xs \<Rightarrow> (c # x) # xs))"

fun py_join :: "nat \<Rightarrow> str list \<Rightarrow> str" where
  "py_join d [] = []"
| "py_join d [x] = x"
| "py_join d (x # y # ys) = x @ d # py_join d (y # ys)"

definition py_startswith :: "str \<Rightarrow> nat \<Rightarrow> bool" where
  "py_startswith s d = (case s of [] \<Rightarrow> False | c # cs \<Rightarrow> c = d)"

text \<open>\<open>s.index(d)\<close>, called only where \<open>d\<close> occurs in \<open>s\<close>.\<close>

definition py_index :: "str \<Rightarrow> nat \<Rightarrow> nat" where
  "py_index s d = length (takeWhile (\<lambda>c. c \<noteq> d) s)"

section \<open>Utility and helper methods\<close>

text \<open>\<open>unquote\<close> returns a string without a percent sign as it is.\<close>

definition py_unquote :: "pylib \<Rightarrow> str \<Rightarrow> str option" where
  "py_unquote L s = (if ord CHR ''%'' \<in> set s then unquote_pct L s else Some s)"

definition percent_decode :: "pylib \<Rightarrow> str \<Rightarrow> str" where
  "percent_decode L s = (case py_unquote L s of Some r \<Rightarrow> r | None \<Rightarrow> s)"

definition is_ascii_alpha :: "nat \<Rightarrow> bool" where
  "is_ascii_alpha ch \<longleftrightarrow> (65 \<le> ch \<and> ch \<le> 90) \<or> (97 \<le> ch \<and> ch \<le> 122)"

definition contains_non_ascii :: "str \<Rightarrow> bool" where
  "contains_non_ascii s = list_ex (\<lambda>c. c > 127) s"

definition default_port :: "str \<Rightarrow> nat option" where
  "default_port scheme =
     (if scheme = lit ''http'' then Some 80
      else if scheme = lit ''https'' then Some 443
      else if scheme = lit ''ftp'' then Some 21
      else if scheme = lit ''ws'' then Some 80
      else if scheme = lit ''wss'' then Some 443
      else None)"

definition split_once :: "str \<Rightarrow> nat \<Rightarrow> str \<times> str" where
  "split_once s delim =
     (if delim \<in> set s
      then (takeWhile (\<lambda>c. c \<noteq> delim) s, tl (dropWhile (\<lambda>c. c \<noteq> delim) s))
      else (s, []))"

definition split_last :: "str \<Rightarrow> nat \<Rightarrow> str \<times> str" where
  "split_last s delim =
     (if delim \<in> set s
      then (rev (tl (dropWhile (\<lambda>c. c \<noteq> delim) (rev s))),
            rev (takeWhile (\<lambda>c. c \<noteq> delim) (rev s)))
      else (s, []))"

definition is_digit_string :: "pylib \<Rightarrow> str \<Rightarrow> bool" where
  "is_digit_string L s \<longleftrightarrow> s \<noteq> [] \<and> list_all (py_isdigit L) s"

definition parse_ipv6 :: "str \<Rightarrow> str \<times> str" where
  "parse_ipv6 buffer =
     (if py_startswith buffer (ord CHR ''['') \<and> ord CHR '']'' \<in> set buffer
      then
        (let host = drop 1 (take (py_index buffer (ord CHR '']'')) buffer);
             remainder = drop (py_index buffer (ord CHR '']'') + 1) buffer;
             port = (if py_startswith remainder (ord CHR '':'') then drop 1 remainder else [])
         in (host, port))
      else (buffer, []))"

section \<open>URIUtilities\<close>

definition decode_ascii :: "str \<Rightarrow> error + str" where
  "decode_ascii b = (if list_all is_ascii b then Inr b else Inl UnicodeDecodeError)"

definition normalize_host :: "pylib \<Rightarrow> str \<Rightarrow> error + str" where
  "normalize_host L host =
     (let host = py_lower L (py_strip_char (ord CHR ''.'') (py_strip host))
      in if contains_non_ascii host
         then (case idna_encode L host of None \<Rightarrow> Inl IDNAError | Some b \<Rightarrow> decode_ascii b)
         else Inr host)"

definition normalize_port :: "pylib \<Rightarrow> str \<Rightarrow> str \<Rightarrow> error + str" where
  "normalize_port L port scheme =
     (if port = [] \<or> \<not> is_digit_string L port then Inr []
      else (case py_int L port of
              Inl e \<Rightarrow> Inl e
            | Inr port_num \<Rightarrow>
                if default_port scheme = Some port_num then Inr [] else Inr (py_str port_num)))"

text \<open>The \<open>for seg in path.split('/')\<close> loop, with the list \<open>segments\<close> it grows.\<close>

fun path_segments :: "str list \<Rightarrow> str list \<Rightarrow> str list" where
  "path_segments [] segments = segments"
| "path_segments (seg # rest) segments =
     (if seg = [] \<or> seg = lit ''.'' then path_segments rest segments
      else if seg = lit ''..'' \<and> segments \<noteq> [] then path_segments rest (butlast segments)
      else if seg \<noteq> lit ''..'' then path_segments rest (segments @ [seg])
      else path_segments rest segments)"

definition network_schemes :: "str list" where
  "network_schemes =
     [lit ''http'', lit ''https'', lit ''ftp'', lit ''file'', lit ''ws'', lit ''wss'']"

definition normalize_path :: "str \<Rightarrow> str \<Rightarrow> str" where
  "normalize_path path scheme =
     (let path = (if scheme \<in> set network_schemes \<and> \<not> py_startswith path (ord CHR ''/'')
                  then ord CHR ''/'' # path else path)
      in ord CHR ''/'' # py_join (ord CHR ''/'') (path_segments (py_split (ord CHR ''/'') path) []))"

section \<open>URIBuilder\<close>

record URIBuilder =
  b_scheme :: str
  b_username :: str
  b_password :: str
  b_host :: str
  b_port :: str
  b_path :: str
  b_query :: str
  b_fragment :: str
  b_opaque :: str

definition new_builder :: URIBuilder where
  "new_builder = \<lparr>b_scheme = [], b_username = [], b_password = [], b_host = [], b_port = [],
     b_path = [], b_query = [], b_fragment = [], b_opaque = []\<rparr>"

definition set_scheme :: "str \<Rightarrow> URIBuilder \<Rightarrow> URIBuilder" where
  "set_scheme s b = b\<lparr>b_scheme := s\<rparr>"

definition set_userinfo :: "str \<Rightarrow> str \<Rightarrow> URIBuilder \<Rightarrow> URIBuilder" where
  "set_userinfo u p b = b\<lparr>b_username := u, b_password := p\<rparr>"

definition set_host_port :: "str \<Rightarrow> str \<Rightarrow> URIBuilder \<Rightarrow> URIBuilder" where
  "set_host_port h p b = b\<lparr>b_host := h, b_port := p\<rparr>"

definition set_path :: "str \<Rightarrow> URIBuilder \<Rightarrow> URIBuilder" where
  "set_path p b = b\<lparr>b_path := p\<rparr>"

definition set_query :: "str \<Rightarrow> URIBuilder \<Rightarrow> URIBuilder" where
  "set_query q b = b\<lparr>b_query := q\<rparr>"

definition set_fragment :: "str \<Rightarrow> URIBuilder \<Rightarrow> URIBuilder" where
  "set_fragment f b = b\<lparr>b_fragment := f\<rparr>"

definition set_opaque :: "str \<Rightarrow> URIBuilder \<Rightarrow> URIBuilder" where
  "set_opaque x b = b\<lparr>b_opaque := x\<rparr>"

text \<open>\<open>URIUtilities.normalize\<close>; the handler argument is not used by the source.\<close>

datatype handler = HierarchicalHandler | OpaqueHandler

definition normalize :: "pylib \<Rightarrow> URIBuilder \<Rightarrow> handler \<Rightarrow> URIBuilder" where
  "normalize L builder h =
     (let builder = builder\<lparr>b_scheme := py_lower L (b_scheme builder)\<rparr>
      in if b_host builder \<noteq> [] then builder\<lparr>b_host := py_lower L (b_host builder)\<rparr>
         else builder)"

section \<open>HierarchicalHandler\<close>

text \<open>
  Every \<open>while\<close> loop of the handler moves the cursor \<open>index\<close> forward over \<open>input_str\<close>
  and is a recursive function of the variables it updates.
\<close>

function consume_slashes :: "str \<Rightarrow> nat \<Rightarrow> nat \<Rightarrow> bool \<Rightarrow> nat \<times> nat \<times> bool" where
  "consume_slashes input_str index slash_count RFC3986_MODE =
     (if index < length input_str
         \<and> (input_str ! index = ord CHR ''/'' \<or> input_str ! index = ord CHR 0x5C)
      then consume_slashes input_str (index + 1) (slash_count + 1)
             (if input_str ! index = ord CHR 0x5C then False else RFC3986_MODE)
      else (index, slash_count, RFC3986_MODE))"
  by pat_completeness auto
termination
  by (relation "measure (\<lambda>(input_str, index, slash_count, m). length input_str - index)") auto

declare consume_slashes.simps [simp del]

definition authority_stop :: "nat \<Rightarrow> bool" where
  "authority_stop c \<longleftrightarrow> c = ord CHR ''/'' \<or> c = ord CHR ''?'' \<or> c = ord CHR ''#''"

text \<open>
  The loop of \<open>_parse_authority\<close>. At an \<open>@\<close> the local \<open>username\<close> is always assigned,
  the local \<open>password\<close> only when the buffer has a colon; both locals live across the
  iterations. The flag \<open>in_userinfo\<close> is written and never read, and is left out.
\<close>

function authority_loop ::
  "pylib \<Rightarrow> str \<Rightarrow> nat \<Rightarrow> str \<Rightarrow> str \<Rightarrow> str \<Rightarrow> URIBuilder \<Rightarrow> nat \<times> str \<times> URIBuilder" where
  "authority_loop L input_str index buffer username password builder =
     (if index < length input_str \<and> \<not> authority_stop (input_str ! index)
      then
        (if input_str ! index = ord CHR ''@''
         then
           authority_loop L input_str (index + 1) []
             (if ord CHR '':'' \<in> set buffer then fst (split_once buffer (ord CHR '':'')) else buffer)
             (if ord CHR '':'' \<in> set buffer then snd (split_once buffer (ord CHR '':'')) else password)
             (set_userinfo
                (percent_decode L
                   (if ord CHR '':'' \<in> set buffer then fst (split_once buffer (ord CHR '':''))
                    else buffer))
                (percent_decode L
                   (if ord CHR '':'' \<in> set buffer then snd (split_once buffer (ord CHR '':''))
                    else password))
                builder)
         else authority_loop L input_str (index + 1) (buffer @ [input_str ! index])
                username password builder)
      else (index, buffer, builder))"
  by pat_completeness auto
termination
  by (relation "measure (\<lambda>(L, input_str, index, r). length input_str - index)") auto

declare authority_loop.simps [simp del]

text \<open>
  The same loop as a recursion over the characters it still has to read: the form the
  proofs work with (\<open>authority_loop_eq\<close> below relates the two).
\<close>

fun authority_chars ::
  "pylib \<Rightarrow> str \<Rightarrow> str \<Rightarrow> str \<Rightarrow> str \<Rightarrow> URIBuilder \<Rightarrow> str \<times> URIBuilder" where
  "authority_chars L [] buffer u p builder = (buffer, builder)"
| "authority_chars L (c # cs) buffer u p builder =
     (if c = ord CHR ''@''
      then
        authority_chars L cs []
          (if ord CHR '':'' \<in> set buffer then fst (split_once buffer (ord CHR '':'')) else buffer)
          (if ord CHR '':'' \<in> set buffer then snd (split_once buffer (ord CHR '':'')) else p)
          (set_userinfo
             (percent_decode L
                (if ord CHR '':'' \<in> set buffer then fst (split_once buffer (ord CHR '':''))
                 else buffer))
             (percent_decode L
                (if ord CHR '':'' \<in> set buffer then snd (split_once buffer (ord CHR '':''))
                 else p))
             builder)
      else authority_chars L cs (buffer @ [c]) u p builder)"

text \<open>The split of the residual buffer into host and port, before normalization.\<close>

definition authority_host_port :: "str \<Rightarrow> str \<times> str" where
  "authority_host_port buffer =
     (if ord CHR ''['' \<in> set buffer \<and> ord CHR '']'' \<in> set buffer then parse_ipv6 buffer
      else if ord CHR '':'' \<in> set buffer then split_last buffer (ord CHR '':'')
      else (buffer, []))"

definition parse_authority ::
  "pylib \<Rightarrow> str \<Rightarrow> nat \<Rightarrow> URIBuilder \<Rightarrow> error + nat \<times> URIBuilder" where
  "parse_authority L input_str index builder =
     (case authority_loop L input_str index [] [] [] builder of
        (index, buffer, builder) \<Rightarrow>
          (case authority_host_port buffer of
             (host, port) \<Rightarrow>
               (case normalize_host L host of
                  Inl e \<Rightarrow> Inl e
                | Inr host \<Rightarrow>
                    (case normalize_port L port (b_scheme builder) of
                       Inl e \<Rightarrow> Inl e
                     | Inr port \<Rightarrow> Inr (index, set_host_port host port builder)))))"

definition path_stop :: "nat \<Rightarrow> bool" where
  "path_stop c \<longleftrightarrow> c = ord CHR ''?'' \<or> c = ord CHR ''#''"

function path_loop :: "str \<Rightarrow> nat \<Rightarrow> str \<Rightarrow> nat \<times> str" where
  "path_loop input_str index path =
     (if index < length input_str \<and> \<not> path_stop (input_str ! index)
      then path_loop input_str (index + 1) (path @ [input_str ! index])
      else (index, path))"
  by pat_completeness auto
termination
  by (relation "measure (\<lambda>(input_str, index, path). length input_str - index)") auto

declare path_loop.simps [simp del]

definition parse_path :: "str \<Rightarrow> nat \<Rightarrow> URIBuilder \<Rightarrow> nat \<times> URIBuilder" where
  "parse_path input_str index builder =
     (case path_loop input_str index [] of
        (index, path) \<Rightarrow> (index, set_path (normalize_path path (b_scheme builder)) builder))"

function query_loop :: "str \<Rightarrow> nat \<Rightarrow> str \<Rightarrow> nat \<times> str" where
  "query_loop input_str index query =
     (if index < length input_str \<and> input_str ! index \<noteq> ord CHR ''#''
      then query_loop input_str (index + 1) (query @ [input_str ! index])
      else (index, query))"
  by pat_completeness auto
termination
  by (relation "measure (\<lambda>(input_str, index, query). length input_str - index)") auto

declare query_loop.simps [simp del]

definition parse_query :: "str \<Rightarrow> nat \<Rightarrow> URIBuilder \<Rightarrow> nat \<times> URIBuilder" where
  "parse_query input_str index builder =
     (if index < length input_str \<and> input_str ! index = ord CHR ''?''
      then (case query_loop input_str (index + 1) [] of
              (index, query) \<Rightarrow> (index, set_query query builder))
      else (index, builder))"

definition parse_fragment :: "str \<Rightarrow> nat \<Rightarrow> URIBuilder \<Rightarrow> URIBuilder" where
  "parse_fragment input_str index builder =
     (if index < length input_str \<and> input_str ! index = ord CHR ''#''
      then set_fragment (drop (index + 1) input_str) builder
      else builder)"

definition HierarchicalHandler_parse ::
  "pylib \<Rightarrow> str \<Rightarrow> nat \<Rightarrow> URIBuilder \<Rightarrow> error + URIBuilder" where
  "HierarchicalHandler_parse L input_str index builder =
     (case consume_slashes input_str index 0 True of
        (index, slash_count, RFC3986_MODE) \<Rightarrow>
          if slash_count < 2 \<and> RFC3986_MODE
          then Inl (ValueError ''Expected '//' after scheme'')
          else
            (case parse_authority L input_str index builder of
               Inl e \<Rightarrow> Inl e
             | Inr (index, builder) \<Rightarrow>
                 (case parse_path input_str index builder of
                    (index, builder) \<Rightarrow>
                      (case parse_query input_str index builder of
                         (index, builder) \<Rightarrow> Inr (parse_fragment input_str index builder)))))"

section \<open>OpaqueHandler and the handler factory\<close>

definition OpaqueHandler_parse :: "str \<Rightarrow> nat \<Rightarrow> URIBuilder \<Rightarrow> URIBuilder" where
  "OpaqueHandler_parse input_str index builder = set_opaque (drop index input_str) builder"

definition get_handler :: "pylib \<Rightarrow> str \<Rightarrow> handler" where
  "get_handler L scheme =
     (let scheme = py_lower L scheme
      in if scheme = lit ''http'' \<or> scheme = lit ''https'' \<or> scheme = lit ''ftp''
            \<or> scheme = lit ''file'' then HierarchicalHandler
         else if scheme = lit ''urn'' \<or> scheme = lit ''mailto'' \<or> scheme = lit ''tel''
            \<or> scheme = lit ''news'' then OpaqueHandler
         else HierarchicalHandler)"

definition handler_parse ::
  "pylib \<Rightarrow> handler \<Rightarrow> str \<Rightarrow> nat \<Rightarrow> URIBuilder \<Rightarrow> error + URIBuilder" where
  "handler_parse L h input_str index builder =
     (case h of
        HierarchicalHandler \<Rightarrow> HierarchicalHandler_parse L input_str index builder
      | OpaqueHandler \<Rightarrow> Inr (OpaqueHandler_parse input_str index builder))"

section \<open>URIParser\<close>

function scheme_loop :: "str \<Rightarrow> nat \<Rightarrow> nat" where
  "scheme_loop input index =
     (if index < length input \<and> is_ascii_alpha (input ! index)
      then scheme_loop input (index + 1)
      else index)"
  by pat_completeness auto
termination
  by (relation "measure (\<lambda>(input, index). length input - index)") auto

declare scheme_loop.simps [simp del]

text \<open>\<open>_parse_scheme\<close> returns the scheme and leaves the cursor behind the colon.\<close>

definition parse_scheme :: "pylib \<Rightarrow> str \<Rightarrow> nat \<Rightarrow> error + str \<times> nat" where
  "parse_scheme L input start =
     (let index = scheme_loop input start
      in if index = start \<or> index \<ge> length input \<or> input ! index \<noteq> ord CHR '':''
         then Inl (ValueError ''Missing or invalid scheme'')
         else Inr (py_lower L (drop start (take index input)), index + 1))"

section \<open>URIObject\<close>

text \<open>
  The record of the result comes after the handlers: its field names are the names of
  their local variables.
\<close>

record URIObject =
  scheme :: str
  username :: str
  password :: str
  host :: str
  port :: str
  path :: str
  query :: str
  fragment :: str
  opaque :: str

definition to_string :: "URIObject \<Rightarrow> str" where
  "to_string u =
     (if opaque u \<noteq> [] then scheme u @ lit '':'' @ opaque u
      else
        scheme u @ lit ''://''
        @ (if username u \<noteq> []
           then username u @ (if password u \<noteq> [] then lit '':'' @ password u else []) @ lit ''@''
           else [])
        @ host u
        @ (if port u \<noteq> [] then lit '':'' @ port u else [])
        @ (if path u \<noteq> [] then path u else lit ''/'')
        @ (if query u \<noteq> [] then lit ''?'' @ query u else [])
        @ (if fragment u \<noteq> [] then lit ''#'' @ fragment u else []))"

definition build :: "URIBuilder \<Rightarrow> URIObject" where
  "build b = \<lparr>scheme = b_scheme b, username = b_username b, password = b_password b,
     host = b_host b, port = b_port b, path = b_path b, query = b_query b,
     fragment = b_fragment b, opaque = b_opaque b\<rparr>"

definition parse :: "pylib \<Rightarrow> str \<Rightarrow> error + URIObject" where
  "parse L input_string =
     (let input = py_strip input_string
      in case parse_scheme L input 0 of
           Inl e \<Rightarrow> Inl e
         | Inr (sch, index) \<Rightarrow>
             (let builder = set_scheme sch new_builder;
                  h = get_handler L sch
              in case handler_parse L h input index builder of
                   Inl e \<Rightarrow> Inl e
                 | Inr builder \<Rightarrow> Inr (build (normalize L builder h))))"

section \<open>The parts of a hierarchical URI\<close>

text \<open>
  The text that each stage of \<open>HierarchicalHandler.parse\<close> reads, as a function of the
  input and of the index behind the scheme's colon: the run of separators, the authority up to
  the first of \<open>/\<close>, \<open>?\<close>, \<open>#\<close>, the path up to the first of \<open>?\<close>, \<open>#\<close>, and the rest, which
  \<open>_parse_query\<close> and \<open>_parse_fragment\<close> read.
\<close>

definition is_separator :: "nat \<Rightarrow> bool" where
  "is_separator c \<longleftrightarrow> c = ord CHR ''/'' \<or> c = ord CHR 0x5C"

definition after_separators :: "str \<Rightarrow> nat \<Rightarrow> str" where
  "after_separators input i = dropWhile is_separator (drop i input)"

definition authority_text :: "str \<Rightarrow> nat \<Rightarrow> str" where
  "authority_text input i = takeWhile (\<lambda>c. \<not> authority_stop c) (after_separators input i)"

definition after_authority :: "str \<Rightarrow> nat \<Rightarrow> str" where
  "after_authority input i = dropWhile (\<lambda>c. \<not> authority_stop c) (after_separators input i)"

definition path_text :: "str \<Rightarrow> nat \<Rightarrow> str" where
  "path_text input i = takeWhile (\<lambda>c. \<not> path_stop c) (after_authority input i)"

definition after_path :: "str \<Rightarrow> nat \<Rightarrow> str" where
  "after_path input i = dropWhile (\<lambda>c. \<not> path_stop c) (after_authority input i)"

definition query_fragment :: "str \<Rightarrow> URIBuilder \<Rightarrow> URIBuilder" where
  "query_fragment rest b =
     (case rest of
        [] \<Rightarrow> b
      | c # cs \<Rightarrow>
          if c = ord CHR ''?''
          then (case dropWhile (\<lambda>c. c \<noteq> ord CHR ''#'') cs of
                  [] \<Rightarrow> set_query (takeWhile (\<lambda>c. c \<noteq> ord CHR ''#'') cs) b
                | d # f \<Rightarrow> set_fragment f (set_query (takeWhile (\<lambda>c. c \<noteq> ord CHR ''#'') cs) b))
          else if c = ord CHR ''#'' then set_fragment cs b
          else b)"

definition scheme_text :: "str \<Rightarrow> str" where
  "scheme_text s = takeWhile is_ascii_alpha (py_strip s)"

definition scheme_ok :: "str \<Rightarrow> bool" where
  "scheme_ok s \<longleftrightarrow>
     scheme_text s \<noteq> []
     \<and> py_startswith (drop (length (scheme_text s)) (py_strip s)) (ord CHR '':'')"

definition uri_scheme :: "str \<Rightarrow> str" where
  "uri_scheme s = map ascii_lower (scheme_text s)"

definition body_index :: "str \<Rightarrow> nat" where
  "body_index s = length (scheme_text s) + 1"

definition separators :: "str \<Rightarrow> str" where
  "separators s = takeWhile is_separator (drop (body_index s) (py_strip s))"

definition authority_state :: "pylib \<Rightarrow> str \<Rightarrow> str \<times> URIBuilder" where
  "authority_state L s =
     authority_chars L (authority_text (py_strip s) (body_index s)) [] [] []
       (set_scheme (uri_scheme s) new_builder)"

definition raw_host_port :: "pylib \<Rightarrow> str \<Rightarrow> str \<times> str" where
  "raw_host_port L s = authority_host_port (fst (authority_state L s))"

definition hier_result :: "pylib \<Rightarrow> str \<Rightarrow> str \<Rightarrow> str \<Rightarrow> URIObject" where
  "hier_result L s h p =
     build (normalize L
       (query_fragment (after_path (py_strip s) (body_index s))
          (set_path (normalize_path (path_text (py_strip s) (body_index s)) (uri_scheme s))
             (set_host_port h p (snd (authority_state L s)))))
       HierarchicalHandler)"

definition opaque_result :: "pylib \<Rightarrow> str \<Rightarrow> URIObject" where
  "opaque_result L s =
     build (normalize L
       (OpaqueHandler_parse (py_strip s) (body_index s) (set_scheme (uri_scheme s) new_builder))
       OpaqueHandler)"

text \<open>
  The path normalizer in the words of the specification: the segments kept are a stack, its
  top the segment retained last.
\<close>

fun retained_segments :: "str list \<Rightarrow> str list \<Rightarrow> str list" where
  "retained_segments [] stack = rev stack"
| "retained_segments (seg # rest) stack =
     (if seg = [] \<or> seg = lit ''.'' then retained_segments rest stack
      else if seg = lit ''..''
      then (case stack of
              [] \<Rightarrow> retained_segments rest []
            | last_kept # below \<Rightarrow> retained_segments rest below)
      else retained_segments rest (seg # stack))"

definition spec_normalize_path :: "str \<Rightarrow> str \<Rightarrow> str" where
  "spec_normalize_path p sch =
     (let p' = (if sch \<in> {lit ''http'', lit ''https'', lit ''ftp'', lit ''file'', lit ''ws'',
                         lit ''wss''}
                   \<and> \<not> py_startswith p (ord CHR ''/'')
                then ord CHR ''/'' # p else p);
          kept = retained_segments (py_split (ord CHR ''/'') p') []
      in if kept = [] then lit ''/''
         else concat (map (\<lambda>seg. ord CHR ''/'' # seg) kept))"

text \<open>A decimal numeral without leading zeros, and the number it denotes.\<close>

definition canonical_decimal :: "str \<Rightarrow> bool" where
  "canonical_decimal s \<longleftrightarrow>
     s \<noteq> [] \<and> list_all ascii_digit s \<and> (1 < length s \<longrightarrow> hd s \<noteq> ord CHR ''0'')"

definition decimal_value :: "str \<Rightarrow> nat" where
  "decimal_value s = foldl (\<lambda>a c. 10 * a + (c - 48)) 0 s"

text \<open>
  A library that knows ASCII only: outside ASCII no character is a digit, and \<open>int\<close>,
  \<open>unquote\<close> and \<open>idna.encode\<close> raise. The parser does not consult the library on an
  ASCII input without a percent sign, so this instance serves to evaluate it there.
\<close>

definition ascii_lib :: pylib where
  "ascii_lib = \<lparr>lower_u = map ascii_lower, isdigit_u = (\<lambda>c. False), int_u = (\<lambda>s. None),
     unquote_pct = (\<lambda>s. None), idna_encode = (\<lambda>s. None)\<rparr>"

text \<open>
  The three parts that \<open>to_string\<close> writes between the \<open>://\<close> and the path, and behind the
  path, of a result without an opaque part.
\<close>

definition userinfo_text :: "URIObject \<Rightarrow> str" where
  "userinfo_text u =
     (if username u \<noteq> []
      then username u @ (if password u \<noteq> [] then lit '':'' @ password u else []) @ lit ''@''
      else [])"

definition hostport_text :: "URIObject \<Rightarrow> str" where
  "hostport_text u = host u @ (if port u \<noteq> [] then lit '':'' @ port u else [])"

definition query_fragment_text :: "URIObject \<Rightarrow> str" where
  "query_fragment_text u =
     (if query u \<noteq> [] then lit ''?'' @ query u else [])
     @ (if fragment u \<noteq> [] then lit ''#'' @ fragment u else [])"

section \<open>The loops, as functions of the text they read\<close>

text \<open>
  Each cursor loop stops at the first character that fails its test: it reads the longest
  prefix of the remaining input whose characters pass, and advances by its length.
\<close>

lemma drop_nth_Cons: "i < length xs \<Longrightarrow> drop i xs = xs ! i # drop (Suc i) xs"
  by (simp add: Cons_nth_drop_Suc)

lemma scheme_loop_eq:
  "scheme_loop input i = i + length (takeWhile is_ascii_alpha (drop i input))"
proof (induction input i rule: scheme_loop.induct)
  case (1 input index)
  show ?case
  proof (cases "index < length input")
    case True
    note d = drop_nth_Cons [OF True]
    show ?thesis
    proof (cases "is_ascii_alpha (input ! index)")
      case True
      with \<open>index < length input\<close> 1 show ?thesis
        by (subst scheme_loop.simps) (simp add: d)
    next
      case False
      then show ?thesis by (subst scheme_loop.simps) (simp add: d)
    qed
  next
    case False
    then show ?thesis by (subst scheme_loop.simps) simp
  qed
qed

lemma lit_simps [simp]: "lit [] = []" "lit (c # cs) = of_char c # lit cs"
  by (simp_all add: lit_def)

lemma py_lower_ascii: "list_all is_ascii s \<Longrightarrow> py_lower L s = map ascii_lower s"
  by (simp add: py_lower_def)

lemma alpha_is_ascii: "is_ascii_alpha c \<Longrightarrow> is_ascii c"
  by (auto simp: is_ascii_alpha_def is_ascii_def)

lemma takeWhile_alpha_ascii: "list_all is_ascii (takeWhile is_ascii_alpha xs)"
  by (induction xs) (auto simp: alpha_is_ascii)

lemma parse_scheme_eq:
  "parse_scheme L input 0 =
     (let run = takeWhile is_ascii_alpha input
      in if run = [] \<or> \<not> py_startswith (drop (length run) input) (ord CHR '':'')
         then Inl (ValueError ''Missing or invalid scheme'')
         else Inr (map ascii_lower run, length run + 1))"
proof -
  define run where "run = takeWhile is_ascii_alpha input"
  have len: "length run \<le> length input" by (simp add: run_def length_takeWhile_le)
  have tk: "take (length run) input = run"
    unfolding run_def by (metis takeWhile_eq_take)
  have sw: "py_startswith (drop (length run) input) c \<longleftrightarrow>
            (length run < length input \<and> input ! length run = c)" for c
    by (cases "length run < length input") (simp_all add: py_startswith_def drop_nth_Cons)
  have asc: "list_all is_ascii run" by (simp add: run_def takeWhile_alpha_ascii)
  have "parse_scheme L input 0 =
     (if run = [] \<or> \<not> py_startswith (drop (length run) input) (ord CHR '':'')
         then Inl (ValueError ''Missing or invalid scheme'')
         else Inr (map ascii_lower run, length run + 1))"
    unfolding parse_scheme_def scheme_loop_eq Let_def
    unfolding run_def [symmetric] drop_0 sw
    using len by (auto simp: tk py_lower_ascii [OF asc])
  then show ?thesis by (simp add: Let_def run_def)
qed


lemma consume_slashes_eq:
  "consume_slashes input i n m =
     (let run = takeWhile (\<lambda>c. c = ord CHR ''/'' \<or> c = ord CHR 0x5C) (drop i input)
      in (i + length run, n + length run, m \<and> ord CHR 0x5C \<notin> set run))"
proof (induction input i n m rule: consume_slashes.induct)
  case (1 input index n m)
  show ?case
  proof (cases "index < length input")
    case True
    note d = drop_nth_Cons [OF True]
    show ?thesis
    proof (cases "input ! index = ord CHR ''/'' \<or> input ! index = ord CHR 0x5C")
      case True
      with \<open>index < length input\<close> 1 show ?thesis
        by (subst consume_slashes.simps) (auto simp: d Let_def)
    next
      case False
      then show ?thesis by (subst consume_slashes.simps) (simp add: d)
    qed
  next
    case False
    then show ?thesis by (subst consume_slashes.simps) simp
  qed
qed

lemma authority_loop_eq:
  "authority_loop L input i buffer u p b =
     (let run = takeWhile (\<lambda>c. \<not> authority_stop c) (drop i input)
      in (i + length run, authority_chars L run buffer u p b))"
proof (induction L input i buffer u p b rule: authority_loop.induct)
  case (1 L input index buffer u p b)
  show ?case
  proof (cases "index < length input")
    case True
    note d = drop_nth_Cons [OF True]
    show ?thesis
    proof (cases "authority_stop (input ! index)")
      case False
      show ?thesis
      proof (cases "input ! index = ord CHR ''@''")
        case True
        with False \<open>index < length input\<close> 1(1) show ?thesis
          by (subst authority_loop.simps) (simp add: d Let_def)
      next
        case ne: False
        with False \<open>index < length input\<close> 1(2) show ?thesis
          by (subst authority_loop.simps) (simp add: d Let_def)
      qed
    next
      case True
      then show ?thesis by (subst authority_loop.simps) (simp add: d)
    qed
  next
    case False
    then show ?thesis by (subst authority_loop.simps) simp
  qed
qed

lemma path_loop_eq:
  "path_loop input i acc =
     (let run = takeWhile (\<lambda>c. \<not> path_stop c) (drop i input)
      in (i + length run, acc @ run))"
proof (induction input i acc rule: path_loop.induct)
  case (1 input index acc)
  show ?case
  proof (cases "index < length input")
    case True
    note d = drop_nth_Cons [OF True]
    show ?thesis
    proof (cases "path_stop (input ! index)")
      case False
      with \<open>index < length input\<close> 1 show ?thesis
        by (subst path_loop.simps) (simp add: d Let_def)
    next
      case True
      then show ?thesis by (subst path_loop.simps) (simp add: d)
    qed
  next
    case False
    then show ?thesis by (subst path_loop.simps) simp
  qed
qed

lemma query_loop_eq:
  "query_loop input i acc =
     (let run = takeWhile (\<lambda>c. c \<noteq> ord CHR ''#'') (drop i input)
      in (i + length run, acc @ run))"
proof (induction input i acc rule: query_loop.induct)
  case (1 input index acc)
  show ?case
  proof (cases "index < length input")
    case True
    note d = drop_nth_Cons [OF True]
    show ?thesis
    proof (cases "input ! index = ord CHR ''#''")
      case False
      with \<open>index < length input\<close> 1 show ?thesis
        by (subst query_loop.simps) (simp add: d Let_def)
    next
      case True
      then show ?thesis by (subst query_loop.simps) (simp add: d)
    qed
  next
    case False
    then show ?thesis by (subst query_loop.simps) simp
  qed
qed

text \<open>The stages of the hierarchical handler, composed.\<close>

lemma drop_takeWhile_add:
  "drop (i + length (takeWhile P (drop i xs))) xs = dropWhile P (drop i xs)"
  by (metis add.commute drop_drop dropWhile_eq_drop)

lemma nth_is_hd_drop:
  "(j < length xs \<and> xs ! j = c) \<longleftrightarrow> (case drop j xs of [] \<Rightarrow> False | d # ds \<Rightarrow> d = c)"
  by (cases "j < length xs") (simp_all add: drop_nth_Cons)

lemma drop_Suc_tl: "drop (Suc j) xs = tl (drop j xs)"
  by (simp add: drop_Suc tl_drop)

lemma drop_Cons_nth: "drop j xs = c # cs \<Longrightarrow> j < length xs \<and> xs ! j = c \<and> drop (Suc j) xs = cs"
proof -
  assume a: "drop j xs = c # cs"
  have j: "j < length xs" using a by (cases "j < length xs") simp_all
  from a drop_nth_Cons [OF j] show ?thesis using j by simp
qed

lemma query_loop_rest:
  "query_loop input j [] = (k, q) \<Longrightarrow>
     q = takeWhile (\<lambda>c. c \<noteq> ord CHR ''#'') (drop j input)
     \<and> drop k input = dropWhile (\<lambda>c. c \<noteq> ord CHR ''#'') (drop j input)"
  using drop_takeWhile_add [of j "\<lambda>c. c \<noteq> ord CHR ''#''" input]
  by (auto simp: query_loop_eq Let_def)

lemma parse_fragment_eq:
  "parse_fragment input k b =
     (case drop k input of [] \<Rightarrow> b
      | d # f \<Rightarrow> if d = ord CHR ''#'' then set_fragment f b else b)"
proof (cases "drop k input")
  case Nil
  then have "\<not> k < length input" by simp
  then show ?thesis by (simp add: parse_fragment_def Nil)
next
  case (Cons d f)
  from drop_Cons_nth [OF Cons] show ?thesis
    by (simp add: parse_fragment_def Cons)
qed

lemma parse_query_eq:
  "parse_query input j b =
     (case drop j input of
        [] \<Rightarrow> (j, b)
      | c # cs \<Rightarrow>
          if c = ord CHR ''?''
          then (Suc j + length (takeWhile (\<lambda>c. c \<noteq> ord CHR ''#'') cs),
                set_query (takeWhile (\<lambda>c. c \<noteq> ord CHR ''#'') cs) b)
          else (j, b))"
proof (cases "drop j input")
  case Nil
  then have "\<not> j < length input" by simp
  then show ?thesis by (simp add: parse_query_def Nil)
next
  case (Cons c cs)
  from drop_Cons_nth [OF Cons] show ?thesis
    by (simp add: parse_query_def Cons query_loop_eq Let_def)
qed

lemma parse_query_fragment_eq:
  "(case parse_query input j b of (k, b') \<Rightarrow> parse_fragment input k b') =
     query_fragment (drop j input) b"
proof (cases "drop j input")
  case Nil
  then show ?thesis
    by (simp add: parse_query_eq parse_fragment_eq query_fragment_def)
next
  case (Cons c cs)
  show ?thesis
  proof (cases "c = ord CHR ''?''")
    case True
    define q where "q = takeWhile (\<lambda>c. c \<noteq> ord CHR ''#'') cs"
    define k where "k = Suc j + length q"
    have rest: "drop k input = dropWhile (\<lambda>c. c \<noteq> ord CHR ''#'') cs"
      unfolding k_def q_def
      using drop_takeWhile_add [of "Suc j" "\<lambda>c. c \<noteq> ord CHR ''#''" input]
        drop_Cons_nth [OF Cons] by simp
    have pq: "parse_query input j b = (k, set_query q b)"
      using True by (simp add: parse_query_eq Cons k_def q_def)
    show ?thesis
    proof (cases "dropWhile (\<lambda>c. c \<noteq> ord CHR ''#'') cs")
      case Nil
      have dk: "drop k input = []" unfolding rest by (fact Nil)
      have lhs: "parse_fragment input k (set_query q b) = set_query q b"
        by (simp add: parse_fragment_eq dk)
      have rhs: "query_fragment (c # cs) b = set_query q b"
        unfolding query_fragment_def q_def using True by (simp only: Nil list.case) simp
      show ?thesis by (simp only: pq prod.case lhs rhs \<open>drop j input = c # cs\<close>)
    next
      case (Cons d f)
      have d: "d = ord CHR ''#''"
        using Cons by (simp add: dropWhile_eq_Cons_conv)
      have dk: "drop k input = d # f" unfolding rest by (fact Cons)
      have lhs: "parse_fragment input k (set_query q b) = set_fragment f (set_query q b)"
        by (simp add: parse_fragment_eq dk d)
      have rhs: "query_fragment (c # cs) b = set_fragment f (set_query q b)"
        unfolding query_fragment_def q_def using True by (simp only: Cons list.case) simp
      show ?thesis by (simp only: pq prod.case lhs rhs \<open>drop j input = c # cs\<close>)
    qed
  next
    case False
    then show ?thesis
      by (simp add: parse_query_eq parse_fragment_eq query_fragment_def Cons)
  qed
qed

lemma parse_path_eq:
  "parse_path input j b =
     (j + length (takeWhile (\<lambda>c. \<not> path_stop c) (drop j input)),
      set_path (normalize_path (takeWhile (\<lambda>c. \<not> path_stop c) (drop j input)) (b_scheme b)) b)"
  by (simp add: parse_path_def path_loop_eq Let_def)

lemma parse_authority_eq:
  "parse_authority L input j b =
     (case authority_chars L (takeWhile (\<lambda>c. \<not> authority_stop c) (drop j input)) [] [] [] b of
        (buffer, b1) \<Rightarrow>
          (case authority_host_port buffer of
             (h, p) \<Rightarrow>
               (case normalize_host L h of
                  Inl e \<Rightarrow> Inl e
                | Inr h' \<Rightarrow>
                    (case normalize_port L p (b_scheme b1) of
                       Inl e \<Rightarrow> Inl e
                     | Inr p' \<Rightarrow>
                         Inr (j + length (takeWhile (\<lambda>c. \<not> authority_stop c) (drop j input)),
                              set_host_port h' p' b1)))))"
  by (simp add: parse_authority_def authority_loop_eq Let_def split: prod.splits)

lemma is_separator_eq: "(\<lambda>c. c = ord CHR ''/'' \<or> c = ord CHR 0x5C) = is_separator"
  by (simp add: is_separator_def fun_eq_iff)

lemma HierarchicalHandler_parse_eq:
  "HierarchicalHandler_parse L input i b =
     (if length (takeWhile is_separator (drop i input)) < 2
         \<and> ord CHR 0x5C \<notin> set (takeWhile is_separator (drop i input))
      then Inl (ValueError ''Expected '//' after scheme'')
      else
        (case authority_chars L (authority_text input i) [] [] [] b of
           (buffer, b1) \<Rightarrow>
             (case authority_host_port buffer of
                (h, p) \<Rightarrow>
                  (case normalize_host L h of
                     Inl e \<Rightarrow> Inl e
                   | Inr h' \<Rightarrow>
                       (case normalize_port L p (b_scheme b1) of
                          Inl e \<Rightarrow> Inl e
                        | Inr p' \<Rightarrow>
                            Inr (query_fragment (after_path input i)
                                  (set_path (normalize_path (path_text input i) (b_scheme b1))
                                     (set_host_port h' p' b1))))))))"
proof -
  define i1 where "i1 = i + length (takeWhile is_separator (drop i input))"
  define i2 where "i2 = i1 + length (takeWhile (\<lambda>c. \<not> authority_stop c) (drop i1 input))"
  define i3 where "i3 = i2 + length (takeWhile (\<lambda>c. \<not> path_stop c) (drop i2 input))"
  have d1: "drop i1 input = after_separators input i"
    unfolding i1_def after_separators_def by (rule drop_takeWhile_add)
  have d2: "drop i2 input = after_authority input i"
    unfolding i2_def after_authority_def d1 [symmetric] by (rule drop_takeWhile_add)
  have d3: "drop i3 input = after_path input i"
    unfolding i3_def after_path_def d2 [symmetric] by (rule drop_takeWhile_add)
  have cs: "consume_slashes input i 0 True =
      (i1, length (takeWhile is_separator (drop i input)),
       ord CHR 0x5C \<notin> set (takeWhile is_separator (drop i input)))"
    unfolding consume_slashes_eq Let_def is_separator_eq i1_def by simp
  have pa: "parse_authority L input i1 b =
     (case authority_chars L (authority_text input i) [] [] [] b of
        (buffer, b1) \<Rightarrow>
          (case authority_host_port buffer of
             (h, p) \<Rightarrow>
               (case normalize_host L h of
                  Inl e \<Rightarrow> Inl e
                | Inr h' \<Rightarrow>
                    (case normalize_port L p (b_scheme b1) of
                       Inl e \<Rightarrow> Inl e
                     | Inr p' \<Rightarrow> Inr (i2, set_host_port h' p' b1)))))"
    unfolding parse_authority_eq i2_def authority_text_def d1 ..
  have pp: "parse_path input i2 b2 =
      (i3, set_path (normalize_path (path_text input i) (b_scheme b2)) b2)" for b2
    unfolding parse_path_eq i3_def path_text_def d2 ..
  have qf: "(case parse_query input i3 b3 of (k, b') \<Rightarrow> parse_fragment input k b') =
      query_fragment (after_path input i) b3" for b3
    unfolding parse_query_fragment_eq d3 ..
  have sch: "b_scheme (set_host_port h' p' b1) = b_scheme b1" for h' p' b1
    by (simp add: set_host_port_def)
  have rest: "(case parse_path input i2 b2 of
                 (j, b3) \<Rightarrow> (case parse_query input j b3 of (k, b') \<Rightarrow> Inr (parse_fragment input k b'))) =
              (Inr (query_fragment (after_path input i)
                  (set_path (normalize_path (path_text input i) (b_scheme b2)) b2)) :: error + URIBuilder)" for b2
  proof -
    obtain k b' where pq: "parse_query input i3
        (set_path (normalize_path (path_text input i) (b_scheme b2)) b2) = (k, b')"
      by (cases "parse_query input i3 (set_path (normalize_path (path_text input i) (b_scheme b2)) b2)")
    from qf [of "set_path (normalize_path (path_text input i) (b_scheme b2)) b2"]
    have "parse_fragment input k b' = query_fragment (after_path input i)
        (set_path (normalize_path (path_text input i) (b_scheme b2)) b2)"
      unfolding pq by simp
    thus ?thesis unfolding pp prod.case pq by simp
  qed
  show ?thesis
    unfolding HierarchicalHandler_parse_def cs prod.case pa
    by (simp add: rest sch Let_def split: prod.splits sum.splits)
qed

section \<open>What the handlers leave untouched, and how they fail\<close>

lemma authority_chars_frame:
  "b_scheme (snd (authority_chars L cs buf u p b)) = b_scheme b"
  "b_host (snd (authority_chars L cs buf u p b)) = b_host b"
  "b_port (snd (authority_chars L cs buf u p b)) = b_port b"
  "b_path (snd (authority_chars L cs buf u p b)) = b_path b"
  "b_query (snd (authority_chars L cs buf u p b)) = b_query b"
  "b_fragment (snd (authority_chars L cs buf u p b)) = b_fragment b"
  "b_opaque (snd (authority_chars L cs buf u p b)) = b_opaque b"
  by (induction cs arbitrary: buf u p b; simp add: set_userinfo_def)+

lemma normalize_host_error:
  "normalize_host L h = Inl e \<Longrightarrow> e = IDNAError \<or> e = UnicodeDecodeError"
  by (auto simp: normalize_host_def decode_ascii_def Let_def split: if_splits option.splits)

lemma normalize_port_error: "normalize_port L p sch = Inl e \<Longrightarrow> e = IntValueError"
  by (auto simp: normalize_port_def py_int_def split: if_splits option.splits sum.splits)

lemma parse_authority_error:
  "parse_authority L input i b = Inl e \<Longrightarrow>
     e = IDNAError \<or> e = UnicodeDecodeError \<or> e = IntValueError"
  unfolding parse_authority_def
  by (auto split: prod.splits sum.splits
           dest: normalize_host_error normalize_port_error)

lemma HierarchicalHandler_parse_error:
  "HierarchicalHandler_parse L input i b = Inl e \<Longrightarrow>
     e = ValueError ''Expected '//' after scheme'' \<or> e = IDNAError
     \<or> e = UnicodeDecodeError \<or> e = IntValueError"
  unfolding HierarchicalHandler_parse_def
  by (auto split: prod.splits sum.splits if_splits dest: parse_authority_error)

lemma parse_authority_scheme:
  "parse_authority L input i b = Inr (j, b') \<Longrightarrow> b_scheme b' = b_scheme b"
proof -
  assume a: "parse_authority L input i b = Inr (j, b')"
  obtain buf b1 where ac: "authority_chars L (takeWhile (\<lambda>c. \<not> authority_stop c) (drop i input)) [] [] [] b = (buf, b1)"
    by (cases "authority_chars L (takeWhile (\<lambda>c. \<not> authority_stop c) (drop i input)) [] [] [] b")
  have "b_scheme b1 = b_scheme b"
    using authority_chars_frame(1) [of L "takeWhile (\<lambda>c. \<not> authority_stop c) (drop i input)" "[]" "[]" "[]" b]
    by (simp add: ac)
  with a ac show ?thesis
    by (auto simp: parse_authority_def authority_loop_eq Let_def set_host_port_def
        split: prod.splits sum.splits)
qed

lemma HierarchicalHandler_parse_scheme:
  "HierarchicalHandler_parse L input i b = Inr b' \<Longrightarrow> b_scheme b' = b_scheme b"
  by (auto simp: HierarchicalHandler_parse_def parse_path_def parse_query_def
      parse_fragment_def set_path_def set_query_def set_fragment_def
      split: prod.splits sum.splits if_splits dest: parse_authority_scheme)

lemma handler_parse_scheme:
  "handler_parse L h input i b = Inr b' \<Longrightarrow> b_scheme b' = b_scheme b"
  by (cases h) (auto simp: handler_parse_def OpaqueHandler_parse_def set_opaque_def
      dest: HierarchicalHandler_parse_scheme)

lemma ascii_lower_idem [simp]: "ascii_lower (ascii_lower c) = ascii_lower c"
  by (simp add: ascii_lower_def)

lemma ascii_lower_is_ascii [simp]: "is_ascii (ascii_lower c) = is_ascii c"
  by (auto simp: ascii_lower_def is_ascii_def)

lemma py_lower_map_ascii_lower:
  "list_all is_ascii s \<Longrightarrow> py_lower L (map ascii_lower s) = map ascii_lower s"
  by (simp add: py_lower_def list_all_iff)

text \<open>The parser, with the scheme scan written as a function of the trimmed input.\<close>

lemma parse_unfold:
  "parse L s =
     (let input = py_strip s; run = takeWhile is_ascii_alpha input
      in if run = [] \<or> \<not> py_startswith (drop (length run) input) (ord CHR '':'')
         then Inl (ValueError ''Missing or invalid scheme'')
         else
           (case handler_parse L (get_handler L (map ascii_lower run)) input (length run + 1)
                   (set_scheme (map ascii_lower run) new_builder) of
              Inl e \<Rightarrow> Inl e
            | Inr b \<Rightarrow> Inr (build (normalize L b (get_handler L (map ascii_lower run))))))"
  by (simp add: parse_def parse_scheme_eq Let_def)

lemma scheme_build_normalize:
  "scheme (build (normalize L b h)) = py_lower L (b_scheme b)"
  by (simp add: build_def normalize_def Let_def)

text \<open>The facts that evaluate the parser on a given input.\<close>

lemmas parse_eval =
  parse_unfold Let_def py_strip_def py_isspace_def is_ascii_alpha_def py_startswith_def
  ascii_lower_def get_handler_def py_lower_def is_ascii_def handler_parse_def
  OpaqueHandler_parse_def HierarchicalHandler_parse_def consume_slashes_eq
  parse_authority_def authority_loop_eq authority_stop_def authority_host_port_def
  parse_ipv6_def py_index_def split_last_def split_once_def normalize_host_def
  py_strip_char_def contains_non_ascii_def normalize_port_def is_digit_string_def
  py_isdigit_def ascii_digit_def py_int_def default_port_def parse_path_def path_loop_eq
  path_stop_def normalize_path_def network_schemes_def parse_query_def query_loop_eq
  parse_fragment_def percent_decode_def py_unquote_def
  set_scheme_def set_userinfo_def set_host_port_def set_path_def set_query_def
  set_fragment_def set_opaque_def new_builder_def build_def normalize_def

lemma query_fragment_frame:
  "b_scheme (query_fragment rest b) = b_scheme b"
  "b_username (query_fragment rest b) = b_username b"
  "b_password (query_fragment rest b) = b_password b"
  "b_host (query_fragment rest b) = b_host b"
  "b_port (query_fragment rest b) = b_port b"
  "b_path (query_fragment rest b) = b_path b"
  "b_opaque (query_fragment rest b) = b_opaque b"
  by (simp_all add: query_fragment_def set_query_def set_fragment_def split: list.splits)

lemma uri_scheme_ascii: "list_all is_ascii (uri_scheme s)"
  using takeWhile_alpha_ascii [of "py_strip s"]
  by (simp add: uri_scheme_def scheme_text_def list_all_iff)

lemma py_lower_uri_scheme [simp]: "py_lower L (uri_scheme s) = uri_scheme s"
  using takeWhile_alpha_ascii [of "py_strip s"]
  by (simp add: uri_scheme_def scheme_text_def py_lower_map_ascii_lower)

lemma authority_state_scheme: "b_scheme (snd (authority_state L s)) = uri_scheme s"
  by (simp add: authority_state_def authority_chars_frame(1) set_scheme_def)

lemma parse_scheme_bad:
  "\<not> scheme_ok s \<Longrightarrow> parse L s = Inl (ValueError ''Missing or invalid scheme'')"
  by (auto simp: parse_unfold Let_def scheme_ok_def scheme_text_def)

lemma parse_opaque_eq:
  "scheme_ok s \<Longrightarrow> get_handler L (uri_scheme s) = OpaqueHandler \<Longrightarrow>
     parse L s = Inr (opaque_result L s)"
  by (simp add: parse_unfold Let_def scheme_ok_def scheme_text_def uri_scheme_def
      handler_parse_def opaque_result_def body_index_def)

lemma parse_hier_eq:
  assumes "scheme_ok s" and "get_handler L (uri_scheme s) = HierarchicalHandler"
  shows "parse L s =
     (if length (separators s) < 2 \<and> ord CHR 0x5C \<notin> set (separators s)
      then Inl (ValueError ''Expected '//' after scheme'')
      else
        (case normalize_host L (fst (raw_host_port L s)) of
           Inl e \<Rightarrow> Inl e
         | Inr h \<Rightarrow>
             (case normalize_port L (snd (raw_host_port L s)) (uri_scheme s) of
                Inl e \<Rightarrow> Inl e
              | Inr p \<Rightarrow> Inr (hier_result L s h p))))"
proof -
  obtain buf b1 where as: "authority_state L s = (buf, b1)"
    by (cases "authority_state L s")
  obtain h p where hp: "authority_host_port buf = (h, p)"
    by (cases "authority_host_port buf")
  have sch: "b_scheme b1 = uri_scheme s"
    using authority_state_scheme [of L s] by (simp add: as)
  have ac: "authority_chars L (authority_text (py_strip s) (body_index s)) [] [] []
       (set_scheme (uri_scheme s) new_builder) = (buf, b1)"
    using as by (simp add: authority_state_def)
  have hh: "HierarchicalHandler_parse L (py_strip s) (body_index s)
       (set_scheme (uri_scheme s) new_builder) =
     (if length (separators s) < 2 \<and> ord CHR 0x5C \<notin> set (separators s)
      then Inl (ValueError ''Expected '//' after scheme'')
      else
        (case normalize_host L h of
           Inl e \<Rightarrow> Inl e
         | Inr h' \<Rightarrow>
             (case normalize_port L p (uri_scheme s) of
                Inl e \<Rightarrow> Inl e
              | Inr p' \<Rightarrow>
                  Inr (query_fragment (after_path (py_strip s) (body_index s))
                        (set_path (normalize_path (path_text (py_strip s) (body_index s)) (uri_scheme s))
                           (set_host_port h' p' b1))))))"
    unfolding HierarchicalHandler_parse_eq ac prod.case hp sch separators_def ..
  have p: "parse L s =
      (case HierarchicalHandler_parse L (py_strip s) (body_index s)
              (set_scheme (uri_scheme s) new_builder) of
         Inl e \<Rightarrow> Inl e
       | Inr b \<Rightarrow> Inr (build (normalize L b HierarchicalHandler)))"
  proof -
    have gh: "get_handler L (map ascii_lower (takeWhile is_ascii_alpha (py_strip s))) =
        HierarchicalHandler"
      using assms(2) by (simp add: uri_scheme_def scheme_text_def)
    show ?thesis
      unfolding parse_unfold Let_def gh using assms(1)
      by (simp add: scheme_ok_def scheme_text_def uri_scheme_def handler_parse_def
          body_index_def)
  qed
  show ?thesis
    unfolding p hh
    by (simp add: raw_host_port_def as hp hier_result_def split: sum.splits)
qed

lemma hier_result_fields:
  "scheme (hier_result L s h p) = uri_scheme s"
  "username (hier_result L s h p) = b_username (snd (authority_state L s))"
  "password (hier_result L s h p) = b_password (snd (authority_state L s))"
  "host (hier_result L s h p) = (if h = [] then [] else py_lower L h)"
  "port (hier_result L s h p) = p"
  "path (hier_result L s h p) = normalize_path (path_text (py_strip s) (body_index s)) (uri_scheme s)"
  "opaque (hier_result L s h p) = []"
  by (simp_all add: hier_result_def build_def normalize_def Let_def query_fragment_frame
      set_path_def set_host_port_def authority_state_scheme
      authority_state_def authority_chars_frame set_scheme_def new_builder_def)

lemma opaque_result_eq:
  "opaque_result L s =
     \<lparr>scheme = uri_scheme s, username = [], password = [], host = [], port = [], path = [],
      query = [], fragment = [], opaque = drop (body_index s) (py_strip s)\<rparr>"
  by (simp add: opaque_result_def build_def normalize_def Let_def OpaqueHandler_parse_def
      set_opaque_def set_scheme_def new_builder_def)

lemma parse_Inr_cases:
  assumes "parse L s = Inr r"
  shows "scheme_ok s \<and>
     (if get_handler L (uri_scheme s) = OpaqueHandler then r = opaque_result L s
      else \<not> (length (separators s) < 2 \<and> ord CHR 0x5C \<notin> set (separators s))
           \<and> (\<exists>h p. normalize_host L (fst (raw_host_port L s)) = Inr h
                  \<and> normalize_port L (snd (raw_host_port L s)) (uri_scheme s) = Inr p
                  \<and> r = hier_result L s h p))"
proof -
  have ok: "scheme_ok s" using assms parse_scheme_bad [of s L] by auto
  show ?thesis
  proof (cases "get_handler L (uri_scheme s)")
    case OpaqueHandler
    with ok assms show ?thesis by (simp add: parse_opaque_eq)
  next
    case HierarchicalHandler
    with assms ok show ?thesis
      by (auto simp: parse_hier_eq split: if_splits sum.splits)
  qed
qed

section \<open>The scheme scan\<close>

text \<open>
  Claim C8. \<open>parse\<close> fails with the parser's \<open>ValueError\<close> "Missing or invalid scheme"
  (the spec's \<open>MalformedURI\<close>) if and only if the longest leading run of ASCII letters of
  the trimmed input is empty or is not directly followed by a colon. Otherwise
  \<open>_parse_scheme\<close> returns that run in lower case and leaves the cursor one behind the end of
  the run, that is behind the colon. When \<open>parse\<close> succeeds, the scheme of the result is
  that run in lower case, the handler chosen for it has read the trimmed input from the
  cursor behind the colon, and the result is what this handler built; so an opaque result
  holds the text behind the colon. In particular \<open>parse("://nohost")\<close> fails with that
  error.
\<close>

theorem parse_scheme_failure:
  "((parse L s = Inl (ValueError ''Missing or invalid scheme'')) \<longleftrightarrow>
      (takeWhile is_ascii_alpha (py_strip s) = []
       \<or> \<not> py_startswith (drop (length (takeWhile is_ascii_alpha (py_strip s))) (py_strip s))
              (ord CHR '':'')))
   \<and> (\<forall>r. parse L s = Inr r \<longrightarrow>
          scheme r = map ascii_lower (takeWhile is_ascii_alpha (py_strip s))
          \<and> py_startswith (drop (length (scheme r)) (py_strip s)) (ord CHR '':''))
   \<and> parse L (lit ''://nohost'') = Inl (ValueError ''Missing or invalid scheme'')
   \<and> parse_scheme L (py_strip s) 0 =
       (if takeWhile is_ascii_alpha (py_strip s) = []
           \<or> \<not> py_startswith (drop (length (takeWhile is_ascii_alpha (py_strip s))) (py_strip s))
                  (ord CHR '':'')
        then Inl (ValueError ''Missing or invalid scheme'')
        else Inr (map ascii_lower (takeWhile is_ascii_alpha (py_strip s)),
                  length (takeWhile is_ascii_alpha (py_strip s)) + 1))
   \<and> (\<forall>r. parse L s = Inr r \<longrightarrow>
          (\<exists>b. handler_parse L (get_handler L (scheme r)) (py_strip s)
                  (length (takeWhile is_ascii_alpha (py_strip s)) + 1)
                  (set_scheme (scheme r) new_builder) = Inr b
               \<and> r = build (normalize L b (get_handler L (scheme r))))
          \<and> (get_handler L (scheme r) = OpaqueHandler \<longrightarrow>
               opaque r = drop (length (takeWhile is_ascii_alpha (py_strip s)) + 1) (py_strip s)))"
proof -
  define input where "input = py_strip s"
  define run where "run = takeWhile is_ascii_alpha input"
  define bad where "bad \<longleftrightarrow> run = [] \<or> \<not> py_startswith (drop (length run) input) (ord CHR '':'')"
  have asc: "list_all is_ascii run" by (simp add: run_def takeWhile_alpha_ascii)
  have unf: "parse L s =
     (if bad then Inl (ValueError ''Missing or invalid scheme'')
      else (case handler_parse L (get_handler L (map ascii_lower run)) input (length run + 1)
                   (set_scheme (map ascii_lower run) new_builder) of
              Inl e \<Rightarrow> Inl e
            | Inr b \<Rightarrow> Inr (build (normalize L b (get_handler L (map ascii_lower run))))))"
    unfolding parse_unfold Let_def bad_def run_def input_def by simp
  have c1: "(parse L s = Inl (ValueError ''Missing or invalid scheme'')) \<longleftrightarrow> bad"
  proof (cases bad)
    case True
    then show ?thesis using unf by simp
  next
    case False
    have hne: "handler_parse L h input i b \<noteq> Inl (ValueError ''Missing or invalid scheme'')"
      for h i b
      by (cases h) (auto simp: handler_parse_def dest: HierarchicalHandler_parse_error)
    have "parse L s \<noteq> Inl (ValueError ''Missing or invalid scheme'')"
      unfolding unf using False hne [of "get_handler L (map ascii_lower run)" "length run + 1"
          "set_scheme (map ascii_lower run) new_builder"]
      by (auto split: sum.splits)
    with False show ?thesis by simp
  qed
  have c2: "scheme r = map ascii_lower run
      \<and> py_startswith (drop (length (scheme r)) input) (ord CHR '':'')
      \<and> (\<exists>b. handler_parse L (get_handler L (scheme r)) input (length run + 1)
                  (set_scheme (scheme r) new_builder) = Inr b
               \<and> r = build (normalize L b (get_handler L (scheme r))))
      \<and> (get_handler L (scheme r) = OpaqueHandler \<longrightarrow> opaque r = drop (length run + 1) input)"
    if ok: "parse L s = Inr r" for r
  proof -
    from ok have nb: "\<not> bad" using unf by (auto split: if_splits)
    from ok unf nb obtain b where
      hp: "handler_parse L (get_handler L (map ascii_lower run)) input (length run + 1)
             (set_scheme (map ascii_lower run) new_builder) = Inr b"
      and r: "r = build (normalize L b (get_handler L (map ascii_lower run)))"
      by (auto split: sum.splits)
    have "b_scheme b = map ascii_lower run"
      using handler_parse_scheme [OF hp] by (simp add: set_scheme_def)
    then have sr: "scheme r = map ascii_lower run"
      by (simp add: r scheme_build_normalize py_lower_map_ascii_lower [OF asc])
    have op: "opaque r = drop (length run + 1) input"
      if "get_handler L (scheme r) = OpaqueHandler"
      using that hp r unfolding sr
      by (auto simp: handler_parse_def OpaqueHandler_parse_def set_opaque_def set_scheme_def
          new_builder_def build_def normalize_def Let_def)
    from nb sr hp r op show ?thesis by (auto simp: bad_def)
  qed
  have c3: "parse L (lit ''://nohost'') = Inl (ValueError ''Missing or invalid scheme'')"
    by (simp add: parse_unfold py_strip_def py_isspace_def is_ascii_alpha_def Let_def)
  have c4: "parse_scheme L input 0 =
       (if bad then Inl (ValueError ''Missing or invalid scheme'')
        else Inr (map ascii_lower run, length run + 1))"
    unfolding parse_scheme_eq Let_def bad_def run_def by simp
  from c1 c2 c3 c4 show ?thesis
    unfolding bad_def run_def input_def by blast
qed

theorem parse_scheme_failure_witness:
  "\<forall>L. parse L (lit ''MailTo:x'') \<noteq> Inl (ValueError ''Missing or invalid scheme'')
     \<and> (\<exists>r. parse L (lit ''MailTo:x'') = Inr r \<and> scheme r = lit ''mailto''
            \<and> opaque r = lit ''x'')
     \<and> parse_scheme L (lit ''MailTo:x'') 0 = Inr (lit ''mailto'', 7)"
proof
  fix L
  have ev: "parse L (lit ''MailTo:x'') =
      Inr \<lparr>scheme = lit ''mailto'', username = [], password = [], host = [], port = [],
        path = [], query = [], fragment = [], opaque = lit ''x''\<rparr>"
    by (simp add: parse_eval)
  have st: "py_strip (lit ''MailTo:x'') = lit ''MailTo:x''"
    by (simp add: py_strip_def py_isspace_def)
  have run: "takeWhile is_ascii_alpha (lit ''MailTo:x'') = lit ''MailTo''"
    by (simp add: is_ascii_alpha_def)
  from parse_scheme_failure [of L "lit ''MailTo:x''"] ev
  show "parse L (lit ''MailTo:x'') \<noteq> Inl (ValueError ''Missing or invalid scheme'')
     \<and> (\<exists>r. parse L (lit ''MailTo:x'') = Inr r \<and> scheme r = lit ''mailto''
            \<and> opaque r = lit ''x'')
     \<and> parse_scheme L (lit ''MailTo:x'') 0 = Inr (lit ''mailto'', 7)"
    unfolding st run by (simp add: py_startswith_def ascii_lower_def)
qed

lemma get_handler_opaque_iff:
  "get_handler L (uri_scheme s) = OpaqueHandler \<longleftrightarrow>
     uri_scheme s \<in> {lit ''urn'', lit ''mailto'', lit ''tel'', lit ''news''}"
  by (simp add: get_handler_def Let_def lit_def)

lemma handler_cases: "h \<noteq> OpaqueHandler \<longleftrightarrow> h = HierarchicalHandler"
  by (cases h) simp_all

lemma normalize_host_not_ValueError: "normalize_host L h \<noteq> Inl (ValueError m)"
  using normalize_host_error [of L h "ValueError m"] by auto

lemma normalize_port_not_ValueError: "normalize_port L p sch \<noteq> Inl (ValueError m)"
  using normalize_port_error [of L p sch "ValueError m"] by auto

lemma takeWhile_maximal: "dropWhile P xs = c # cs \<Longrightarrow> \<not> P c"
  by (simp add: dropWhile_eq_Cons_conv)

lemmas text_eval =
  scheme_ok_def scheme_text_def uri_scheme_def body_index_def separators_def
  is_separator_def authority_state_def raw_host_port_def authority_text_def
  after_separators_def after_authority_def path_text_def after_path_def

section \<open>The separators behind the scheme\<close>

text \<open>
  Claim C3. The hierarchical handler consumes the longest run of \<open>/\<close> and \<open>\\<close> behind
  the scheme's colon: the cursor moves by the length of that run, the count is its length, the
  character behind it (if any) is no separator, and the mode flag \<open>RFC3986_MODE\<close> is cleared
  (the lenient mode) exactly when the run has a \<open>\\<close>. The handler fails with the parser's
  \<open>ValueError\<close> "Expected '//' after scheme" (the spec's \<open>MalformedURI\<close>) exactly when the
  run is shorter than two and has no \<open>\\<close>; and so does \<open>parse\<close> on every input whose
  scheme is read and mapped to the hierarchical handler.
\<close>

theorem separator_run:
  "consume_slashes input i 0 True =
     (i + length (takeWhile is_separator (drop i input)),
      length (takeWhile is_separator (drop i input)),
      ord CHR 0x5C \<notin> set (takeWhile is_separator (drop i input)))
   \<and> (\<forall>c cs. drop (i + length (takeWhile is_separator (drop i input))) input = c # cs
          \<longrightarrow> \<not> is_separator c)
   \<and> ((HierarchicalHandler_parse L input i b = Inl (ValueError ''Expected '//' after scheme''))
        \<longleftrightarrow> (length (takeWhile is_separator (drop i input)) < 2
             \<and> ord CHR 0x5C \<notin> set (takeWhile is_separator (drop i input))))
   \<and> (\<not> (length (takeWhile is_separator (drop i input)) < 2
             \<and> ord CHR 0x5C \<notin> set (takeWhile is_separator (drop i input))) \<longrightarrow>
        HierarchicalHandler_parse L input i b =
          (case parse_authority L input (i + length (takeWhile is_separator (drop i input))) b of
             Inl e \<Rightarrow> Inl e
           | Inr (j, b1) \<Rightarrow>
               (case parse_path input j b1 of
                  (k, b2) \<Rightarrow>
                    (case parse_query input k b2 of
                       (m, b3) \<Rightarrow> Inr (parse_fragment input m b3)))))
   \<and> (scheme_ok s \<and> get_handler L (uri_scheme s) = HierarchicalHandler \<longrightarrow>
        ((parse L s = Inl (ValueError ''Expected '//' after scheme''))
         \<longleftrightarrow> (length (separators s) < 2 \<and> ord CHR 0x5C \<notin> set (separators s))))"
proof (intro conjI allI impI)
  show "consume_slashes input i 0 True =
     (i + length (takeWhile is_separator (drop i input)),
      length (takeWhile is_separator (drop i input)),
      ord CHR 0x5C \<notin> set (takeWhile is_separator (drop i input)))"
    unfolding consume_slashes_eq Let_def is_separator_eq by simp
next
  fix c cs
  assume "drop (i + length (takeWhile is_separator (drop i input))) input = c # cs"
  then have "dropWhile is_separator (drop i input) = c # cs"
    by (simp only: drop_takeWhile_add)
  then show "\<not> is_separator c" by (rule takeWhile_maximal)
next
  show "(HierarchicalHandler_parse L input i b = Inl (ValueError ''Expected '//' after scheme''))
        \<longleftrightarrow> (length (takeWhile is_separator (drop i input)) < 2
             \<and> ord CHR 0x5C \<notin> set (takeWhile is_separator (drop i input)))"
    unfolding HierarchicalHandler_parse_eq
    by (auto simp: normalize_host_not_ValueError normalize_port_not_ValueError
        split: prod.splits sum.splits)
next
  assume "\<not> (length (takeWhile is_separator (drop i input)) < 2
             \<and> ord CHR 0x5C \<notin> set (takeWhile is_separator (drop i input)))"
  then show "HierarchicalHandler_parse L input i b =
          (case parse_authority L input (i + length (takeWhile is_separator (drop i input))) b of
             Inl e \<Rightarrow> Inl e
           | Inr (j, b1) \<Rightarrow>
               (case parse_path input j b1 of
                  (k, b2) \<Rightarrow>
                    (case parse_query input k b2 of
                       (m, b3) \<Rightarrow> Inr (parse_fragment input m b3))))"
    unfolding HierarchicalHandler_parse_def consume_slashes_eq Let_def is_separator_eq
    by auto
next
  assume a: "scheme_ok s \<and> get_handler L (uri_scheme s) = HierarchicalHandler"
  then have ok: "scheme_ok s" and gh: "get_handler L (uri_scheme s) = HierarchicalHandler"
    by simp_all
  show "(parse L s = Inl (ValueError ''Expected '//' after scheme''))
         \<longleftrightarrow> (length (separators s) < 2 \<and> ord CHR 0x5C \<notin> set (separators s))"
    unfolding parse_hier_eq [OF ok gh]
    by (auto simp: normalize_host_not_ValueError normalize_port_not_ValueError
        split: sum.splits)
qed

theorem separator_run_witness:
  "\<forall>L. parse L (lit ''http:/h'') = Inl (ValueError ''Expected '//' after scheme'')
     \<and> separators (lit ''http:/h'') = lit ''/''
     \<and> parse L (lit ''http:/'' @ [ord CHR 0x5C] @ lit ''h/x'')
         \<noteq> Inl (ValueError ''Expected '//' after scheme'')
     \<and> consume_slashes (lit ''http:/'' @ [ord CHR 0x5C] @ lit ''h/x'') 5 0 True = (7, 2, False)
     \<and> HierarchicalHandler_parse L (lit ''http:/'' @ [ord CHR 0x5C] @ lit ''h/x'') 5 new_builder =
         Inr (new_builder\<lparr>b_host := lit ''h'', b_path := lit ''/x''\<rparr>)"
proof
  fix L :: pylib
  define s where "s = lit ''http:/h''"
  define t where "t = lit ''http:/'' @ [ord CHR 0x5C] @ lit ''h/x''"
  have ok: "scheme_ok s \<and> get_handler L (uri_scheme s) = HierarchicalHandler"
    by (simp add: s_def text_eval parse_eval)
  have sep: "separators s = lit ''/''"
    by (simp add: s_def text_eval parse_eval)
  have ok2: "scheme_ok t \<and> get_handler L (uri_scheme t) = HierarchicalHandler"
    by (simp add: t_def text_eval parse_eval)
  have sep2: "separators t = [ord CHR ''/'', ord CHR 0x5C]"
    by (simp add: t_def text_eval parse_eval)
  have run: "takeWhile is_separator (drop 5 t) = [ord CHR ''/'', ord CHR 0x5C]"
    by (simp add: t_def is_separator_def)
  have pa: "parse_authority L t 7 new_builder = Inr (8, new_builder\<lparr>b_host := lit ''h''\<rparr>)"
    by (simp add: t_def parse_eval)
  have pp: "parse_path t 8 (new_builder\<lparr>b_host := lit ''h''\<rparr>) =
      (10, new_builder\<lparr>b_host := lit ''h'', b_path := lit ''/x''\<rparr>)"
    by (simp add: t_def parse_eval)
  have pq: "parse_query t 10 b = (10, b)" for b
    by (simp add: t_def parse_eval)
  have pf: "parse_fragment t 10 b = b" for b
    by (simp add: t_def parse_eval)
  note th = separator_run [of t 5 L new_builder t, unfolded run]
  from separator_run [of s 5 L new_builder s] ok sep
  have 1: "parse L s = Inl (ValueError ''Expected '//' after scheme'')" by simp
  from th ok2 sep2
  have 2: "parse L t \<noteq> Inl (ValueError ''Expected '//' after scheme'')" by simp
  from th have 3: "consume_slashes t 5 0 True = (7, 2, False)" by simp
  from th have "HierarchicalHandler_parse L t 5 new_builder =
          (case parse_authority L t 7 new_builder of
             Inl e \<Rightarrow> Inl e
           | Inr (j, b1) \<Rightarrow>
               (case parse_path t j b1 of
                  (k, b2) \<Rightarrow>
                    (case parse_query t k b2 of
                       (m, b3) \<Rightarrow> Inr (parse_fragment t m b3))))"
    by simp
  then have 4: "HierarchicalHandler_parse L t 5 new_builder =
      Inr (new_builder\<lparr>b_host := lit ''h'', b_path := lit ''/x''\<rparr>)"
    unfolding pa sum.case prod.case pp pq pf .
  from 1 2 3 4 sep
  show "parse L (lit ''http:/h'') = Inl (ValueError ''Expected '//' after scheme'')
     \<and> separators (lit ''http:/h'') = lit ''/''
     \<and> parse L (lit ''http:/'' @ [ord CHR 0x5C] @ lit ''h/x'')
         \<noteq> Inl (ValueError ''Expected '//' after scheme'')
     \<and> consume_slashes (lit ''http:/'' @ [ord CHR 0x5C] @ lit ''h/x'') 5 0 True = (7, 2, False)
     \<and> HierarchicalHandler_parse L (lit ''http:/'' @ [ord CHR 0x5C] @ lit ''h/x'') 5 new_builder =
         Inr (new_builder\<lparr>b_host := lit ''h'', b_path := lit ''/x''\<rparr>)"
    unfolding s_def t_def by blast
qed

section \<open>The two lanes\<close>

text \<open>
  Claim C4. The opaque handler is chosen exactly for the schemes \<open>urn\<close>, \<open>mailto\<close>,
  \<open>tel\<close>, \<open>news\<close>. Every input whose scheme is read and is one of them parses, and the
  result holds all of the trimmed input behind the scheme's colon in \<open>opaque\<close>, unchanged,
  with \<open>username\<close>, \<open>password\<close>, \<open>host\<close>, \<open>port\<close>, \<open>path\<close>, \<open>query\<close> and
  \<open>fragment\<close> empty. A successful parse with the hierarchical handler leaves \<open>opaque\<close>
  empty.
\<close>

theorem opaque_lane:
  "((get_handler L (uri_scheme s) = OpaqueHandler) \<longleftrightarrow>
      uri_scheme s \<in> {lit ''urn'', lit ''mailto'', lit ''tel'', lit ''news''})
   \<and> (scheme_ok s \<and> get_handler L (uri_scheme s) = OpaqueHandler \<longrightarrow>
        parse L s =
          Inr \<lparr>scheme = uri_scheme s, username = [], password = [], host = [], port = [],
               path = [], query = [], fragment = [],
               opaque = drop (length (uri_scheme s) + 1) (py_strip s)\<rparr>)
   \<and> (\<forall>r. parse L s = Inr r \<longrightarrow>
          scheme r = uri_scheme s
          \<and> (get_handler L (scheme r) = OpaqueHandler \<longrightarrow>
               opaque r = drop (length (scheme r) + 1) (py_strip s)
               \<and> username r = [] \<and> password r = [] \<and> host r = [] \<and> port r = []
               \<and> path r = [] \<and> query r = [] \<and> fragment r = [])
          \<and> (get_handler L (scheme r) = HierarchicalHandler \<longrightarrow> opaque r = []))"
proof (intro conjI allI impI)
  show "(get_handler L (uri_scheme s) = OpaqueHandler) \<longleftrightarrow>
      uri_scheme s \<in> {lit ''urn'', lit ''mailto'', lit ''tel'', lit ''news''}"
    by (rule get_handler_opaque_iff)
next
  assume "scheme_ok s \<and> get_handler L (uri_scheme s) = OpaqueHandler"
  then show "parse L s =
          Inr \<lparr>scheme = uri_scheme s, username = [], password = [], host = [], port = [],
               path = [], query = [], fragment = [],
               opaque = drop (length (uri_scheme s) + 1) (py_strip s)\<rparr>"
    by (simp add: parse_opaque_eq opaque_result_eq body_index_def uri_scheme_def)
next
  fix r assume p: "parse L s = Inr r"
  note c = parse_Inr_cases [OF p]
  have both: "scheme r = uri_scheme s
     \<and> (get_handler L (uri_scheme s) = OpaqueHandler \<longrightarrow>
          opaque r = drop (length (uri_scheme s) + 1) (py_strip s)
          \<and> username r = [] \<and> password r = [] \<and> host r = [] \<and> port r = []
          \<and> path r = [] \<and> query r = [] \<and> fragment r = [])
     \<and> (get_handler L (uri_scheme s) = HierarchicalHandler \<longrightarrow> opaque r = [])"
  proof (cases "get_handler L (uri_scheme s)")
    case OpaqueHandler
    with c have r: "r = opaque_result L s" by simp
    from OpaqueHandler show ?thesis
      by (simp add: r opaque_result_eq body_index_def uri_scheme_def)
  next
    case HierarchicalHandler
    with c obtain h p' where r: "r = hier_result L s h p'" by auto
    from HierarchicalHandler show ?thesis
      by (simp add: r hier_result_fields)
  qed
  from both show "scheme r = uri_scheme s" by simp
  {
    assume "get_handler L (scheme r) = OpaqueHandler"
    with both have o: "opaque r = drop (length (scheme r) + 1) (py_strip s)
          \<and> username r = [] \<and> password r = [] \<and> host r = [] \<and> port r = []
          \<and> path r = [] \<and> query r = [] \<and> fragment r = []" by simp
    from o show "opaque r = drop (length (scheme r) + 1) (py_strip s)" by simp
    from o show "username r = []" by simp
    from o show "password r = []" by simp
    from o show "host r = []" by simp
    from o show "port r = []" by simp
    from o show "path r = []" by simp
    from o show "query r = []" by simp
    from o show "fragment r = []" by simp
  }
  {
    assume "get_handler L (scheme r) = HierarchicalHandler"
    with both show "opaque r = []" by simp
  }
qed

theorem opaque_lane_witness:
  "\<forall>L. parse L (lit ''mailto:a@b.com/p?q#f'') =
        Inr \<lparr>scheme = lit ''mailto'', username = [], password = [], host = [], port = [],
          path = [], query = [], fragment = [], opaque = lit ''a@b.com/p?q#f''\<rparr>
     \<and> (\<exists>r. parse L (lit ''http://h/p'') = Inr r \<and> opaque r = [] \<and> path r = lit ''/p'')"
proof
  fix L :: pylib
  define s where "s = lit ''mailto:a@b.com/p?q#f''"
  have ok: "scheme_ok s \<and> get_handler L (uri_scheme s) = OpaqueHandler"
    by (simp add: s_def text_eval parse_eval)
  have sch: "uri_scheme s = lit ''mailto''"
    by (simp add: s_def text_eval parse_eval)
  have st: "py_strip s = s"
    by (simp add: s_def py_strip_def py_isspace_def)
  from opaque_lane [of L s] ok
  have e1: "parse L s =
      Inr \<lparr>scheme = lit ''mailto'', username = [], password = [], host = [], port = [],
        path = [], query = [], fragment = [], opaque = lit ''a@b.com/p?q#f''\<rparr>"
    unfolding sch st by (simp add: s_def)
  have e2: "parse L (lit ''http://h/p'') =
      Inr \<lparr>scheme = lit ''http'', username = [], password = [], host = lit ''h'', port = [],
        path = lit ''/p'', query = [], fragment = [], opaque = []\<rparr>"
    by (simp add: parse_eval)
  have gh: "get_handler L (lit ''http'') = HierarchicalHandler"
    by (simp add: parse_eval)
  from opaque_lane [of L "lit ''http://h/p''"] e2 gh
  have "opaque \<lparr>scheme = lit ''http'', username = [], password = [], host = lit ''h'', port = [],
        path = lit ''/p'', query = [], fragment = [], opaque = []\<rparr> = []"
    by simp
  with e1 e2
  show "parse L (lit ''mailto:a@b.com/p?q#f'') =
        Inr \<lparr>scheme = lit ''mailto'', username = [], password = [], host = [], port = [],
          path = [], query = [], fragment = [], opaque = lit ''a@b.com/p?q#f''\<rparr>
     \<and> (\<exists>r. parse L (lit ''http://h/p'') = Inr r \<and> opaque r = [] \<and> path r = lit ''/p'')"
    unfolding s_def by simp
qed

section \<open>Splitting and joining\<close>

lemma py_split_nonempty [simp]: "py_split d s \<noteq> []"
  by (induction s) (auto split: list.splits)

lemma py_join_Cons:
  "py_join d (x # xs) = (if xs = [] then x else x @ d # py_join d xs)"
  by (cases xs) simp_all

lemma py_join_split: "py_join d (py_split d s) = s"
proof (induction s)
  case Nil
  show ?case by simp
next
  case (Cons c cs)
  obtain x xs where sp: "py_split d cs = x # xs"
    using py_split_nonempty [of d cs] by (cases "py_split d cs") auto
  from Cons show ?case
    by (auto simp: sp py_join_Cons split: if_splits)
qed

lemma py_split_no_sep: "seg \<in> set (py_split d s) \<Longrightarrow> d \<notin> set seg"
proof (induction s arbitrary: seg)
  case Nil
  then show ?case by simp
next
  case (Cons c cs)
  obtain x xs where sp: "py_split d cs = x # xs"
    using py_split_nonempty [of d cs] by (cases "py_split d cs") auto
  have x: "d \<notin> set x" and xs: "\<And>y. y \<in> set xs \<Longrightarrow> d \<notin> set y"
    using Cons.IH by (simp_all add: sp)
  from Cons.prems x xs show ?case
    by (auto simp: sp split: if_splits)
qed

lemma slash_join_concat:
  "c # py_join c segs = (if segs = [] then [c] else concat (map (\<lambda>seg. c # seg) segs))"
proof (induction segs)
  case Nil
  show ?case by simp
next
  case (Cons x xs)
  then show ?case by (simp add: py_join_Cons)
qed

lemma path_segments_retained:
  "path_segments segs acc = retained_segments segs (rev acc)"
proof (induction segs arbitrary: acc)
  case Nil
  show ?case by simp
next
  case (Cons seg rest)
  note IH = Cons.IH
  have bl: "rev (butlast acc) = tl (rev acc)"
    by (metis butlast_rev rev_rev_ident)
  show ?case
  proof (cases "rev acc")
    case Nil
    then have "acc = []" by simp
    then show ?thesis using IH [of "[]"] IH [of "[seg]"] by simp
  next
    case (Cons kept below)
    then have ne: "acc \<noteq> []" by auto
    from Cons have tl: "rev (butlast acc) = below" by (simp add: bl)
    show ?thesis
      using IH [of acc] IH [of "butlast acc"] IH [of "acc @ [seg]"] ne
      by (simp add: Cons tl)
  qed
qed

lemma network_schemes_set:
  "sch \<in> set network_schemes \<longleftrightarrow>
     sch \<in> {lit ''http'', lit ''https'', lit ''ftp'', lit ''file'', lit ''ws'', lit ''wss''}"
  by (simp add: network_schemes_def)

lemma normalize_path_spec: "normalize_path p sch = spec_normalize_path p sch"
  unfolding normalize_path_def spec_normalize_path_def Let_def network_schemes_set
    slash_join_concat path_segments_retained
  by (simp add: lit_def)

lemma normalize_path_starts: "normalize_path p sch \<noteq> [] \<and> py_startswith (normalize_path p sch) (ord CHR ''/'')"
  by (simp add: normalize_path_def Let_def py_startswith_def)

lemma normalize_path_empty: "normalize_path [] sch = lit ''/''"
  by (simp add: normalize_path_def Let_def py_startswith_def)

lemma parse_hier_fields:
  assumes "parse L s = Inr r" and "get_handler L (scheme r) = HierarchicalHandler"
  shows "scheme r = uri_scheme s"
    and "get_handler L (uri_scheme s) = HierarchicalHandler"
    and "\<exists>h. normalize_host L (fst (raw_host_port L s)) = Inr h
             \<and> host r = (if h = [] then [] else py_lower L h)"
    and "normalize_port L (snd (raw_host_port L s)) (uri_scheme s) = Inr (port r)"
    and "path r = normalize_path (path_text (py_strip s) (body_index s)) (uri_scheme s)"
    and "username r = b_username (snd (authority_state L s))"
    and "password r = b_password (snd (authority_state L s))"
    and "opaque r = []"
proof -
  note c = parse_Inr_cases [OF assms(1)]
  have sr: "scheme r = uri_scheme s"
  proof (cases "get_handler L (uri_scheme s)")
    case OpaqueHandler
    with c show ?thesis by (simp add: opaque_result_eq)
  next
    case HierarchicalHandler
    with c show ?thesis by (auto simp: hier_result_fields)
  qed
  then show "scheme r = uri_scheme s" .
  from assms(2) sr show gh: "get_handler L (uri_scheme s) = HierarchicalHandler" by simp
  with c obtain h p where
    h: "normalize_host L (fst (raw_host_port L s)) = Inr h" and
    p: "normalize_port L (snd (raw_host_port L s)) (uri_scheme s) = Inr p" and
    r: "r = hier_result L s h p"
    by auto
  from h show "\<exists>h. normalize_host L (fst (raw_host_port L s)) = Inr h
             \<and> host r = (if h = [] then [] else py_lower L h)"
    by (auto simp: r hier_result_fields)
  from p show "normalize_port L (snd (raw_host_port L s)) (uri_scheme s) = Inr (port r)"
    by (simp add: r hier_result_fields)
  show "path r = normalize_path (path_text (py_strip s) (body_index s)) (uri_scheme s)"
    by (simp add: r hier_result_fields)
  show "username r = b_username (snd (authority_state L s))"
    by (simp add: r hier_result_fields)
  show "password r = b_password (snd (authority_state L s))"
    by (simp add: r hier_result_fields)
  show "opaque r = []"
    by (simp add: r hier_result_fields)
qed

section \<open>Decimal numerals\<close>

lemma py_str_nonempty [simp]: "py_str n \<noteq> []"
  by (subst py_str.simps) simp

lemma py_str_digits: "list_all ascii_digit (py_str n)"
proof (induction n rule: py_str.induct)
  case (1 n)
  show ?case
  proof (cases "n < 10")
    case True
    then show ?thesis by (subst py_str.simps) (simp add: ascii_digit_def)
  next
    case False
    have "n mod 10 < 10" by simp
    then have "ascii_digit (48 + n mod 10)" unfolding ascii_digit_def by linarith
    with False 1 show ?thesis by (subst py_str.simps) simp
  qed
qed

lemma py_str_hd: "hd (py_str n) = 48 \<longleftrightarrow> n = 0"
proof (induction n rule: py_str.induct)
  case (1 n)
  show ?case
  proof (cases "n < 10")
    case True
    then show ?thesis by (subst py_str.simps) simp
  next
    case False
    then have "n div 10 \<noteq> 0" by simp
    with False 1 show ?thesis by (subst py_str.simps) simp
  qed
qed

lemma py_str_length: "1 < length (py_str n) \<longleftrightarrow> 10 \<le> n"
proof (cases "n < 10")
  case True
  then show ?thesis by (subst py_str.simps) simp
next
  case False
  have "0 < length (py_str (n div 10))" by simp
  with False show ?thesis by (subst py_str.simps) simp
qed

lemma decimal_value_snoc: "decimal_value (xs @ [c]) = 10 * decimal_value xs + (c - 48)"
  by (simp add: decimal_value_def)

lemma decimal_value_py_str: "decimal_value (py_str n) = n"
proof (induction n rule: py_str.induct)
  case (1 n)
  show ?case
  proof (cases "n < 10")
    case True
    then show ?thesis by (subst py_str.simps) (simp add: decimal_value_def)
  next
    case False
    with 1 show ?thesis by (subst py_str.simps) (simp add: decimal_value_snoc)
  qed
qed

lemma canonical_py_str: "canonical_decimal (py_str n)"
  using py_str_hd [of n] py_str_length [of n]
  by (auto simp: canonical_decimal_def py_str_digits)

lemma normalize_port_cases:
  "normalize_port L p sch = Inr q \<Longrightarrow>
     q = [] \<or> (\<exists>n. q = py_str n \<and> default_port sch \<noteq> Some n)"
  by (auto simp: normalize_port_def split: if_splits sum.splits)

section \<open>The path of a hierarchical result\<close>

text \<open>
  Claim C9. The path of a successful hierarchical parse is \<open>normalize_path\<close> of the text
  between the authority and the first \<open>?\<close> or \<open>#\<close>. It is never empty and begins with
  \<open>/\<close> (for every scheme, so also for the network schemes); when that text is empty the
  path is \<open>/\<close>. \<open>normalize_path\<close> itself never returns the empty string, always returns
  a string that begins with \<open>/\<close>, and maps the empty path to \<open>/\<close>.
\<close>

theorem hierarchical_path_nonempty:
  "(\<forall>r. parse L s = Inr r \<and> get_handler L (scheme r) = HierarchicalHandler \<longrightarrow>
       path r = normalize_path (path_text (py_strip s) (body_index s)) (scheme r)
       \<and> path r \<noteq> []
       \<and> py_startswith (path r) (ord CHR ''/'')
       \<and> (path_text (py_strip s) (body_index s) = [] \<longrightarrow> path r = lit ''/''))
   \<and> normalize_path [] sch = lit ''/''
   \<and> normalize_path p sch \<noteq> []
   \<and> py_startswith (normalize_path p sch) (ord CHR ''/'')"
proof (intro conjI allI impI)
  fix r
  assume a: "parse L s = Inr r \<and> get_handler L (scheme r) = HierarchicalHandler"
  then have p: "parse L s = Inr r" and g: "get_handler L (scheme r) = HierarchicalHandler"
    by simp_all
  note f = parse_hier_fields [OF p g]
  show pr: "path r = normalize_path (path_text (py_strip s) (body_index s)) (scheme r)"
    using f(1) f(5) by simp
  show "path r \<noteq> []" unfolding pr using normalize_path_starts by blast
  show "py_startswith (path r) (ord CHR ''/'')" unfolding pr using normalize_path_starts by blast
  assume "path_text (py_strip s) (body_index s) = []"
  then show "path r = lit ''/''" unfolding pr by (simp only: normalize_path_empty)
next
  show "normalize_path [] sch = lit ''/''" by (rule normalize_path_empty)
  show "normalize_path p sch \<noteq> []" using normalize_path_starts by blast
  show "py_startswith (normalize_path p sch) (ord CHR ''/'')" using normalize_path_starts by blast
qed

theorem hierarchical_path_nonempty_witness:
  "\<forall>L. (\<exists>r. parse L (lit ''http://h?q'') = Inr r \<and> path r = lit ''/'' \<and> query r = lit ''q'')
     \<and> path_text (lit ''http://h?q'') 5 = []"
proof
  fix L :: pylib
  define s where "s = lit ''http://h?q''"
  define r0 where "r0 = \<lparr>scheme = lit ''http'', username = [], password = [], host = lit ''h'',
        port = [], path = lit ''/'', query = lit ''q'', fragment = [], opaque = []\<rparr>"
  have e: "parse L s = Inr r0"
    by (simp add: s_def r0_def parse_eval)
  have gh: "get_handler L (scheme r0) = HierarchicalHandler"
    by (simp add: r0_def parse_eval)
  have st: "py_strip s = s" by (simp add: s_def py_strip_def py_isspace_def)
  have bi: "body_index s = 5"
    by (simp add: s_def body_index_def scheme_text_def py_strip_def py_isspace_def
        is_ascii_alpha_def)
  have pt: "path_text s 5 = []"
    by (simp add: s_def path_text_def after_authority_def after_separators_def
        is_separator_def authority_stop_def path_stop_def)
  from hierarchical_path_nonempty [of L s "[]" "[]"]
  have "parse L s = Inr r0 \<and> get_handler L (scheme r0) = HierarchicalHandler \<longrightarrow>
      (path_text (py_strip s) (body_index s) = [] \<longrightarrow> path r0 = lit ''/'')"
    by blast
  with e gh have "path_text s 5 = [] \<longrightarrow> path r0 = lit ''/''"
    unfolding st bi by blast
  with pt have pr: "path r0 = lit ''/''" by blast
  have q: "query r0 = lit ''q''" by (simp add: r0_def)
  from e pr q pt
  show "(\<exists>r. parse L (lit ''http://h?q'') = Inr r \<and> path r = lit ''/'' \<and> query r = lit ''q'')
     \<and> path_text (lit ''http://h?q'') 5 = []"
    unfolding s_def by blast
qed

section \<open>Dot segments\<close>

text \<open>
  Claim C5. \<open>normalize_path\<close> is the normalizer the specification describes
  (\<open>spec_normalize_path\<close>): after the leading \<open>/\<close> is put before the path of a network
  scheme that lacks it, the path is split on \<open>/\<close> (joining the pieces with \<open>/\<close> gives the
  path back, and no piece has a \<open>/\<close>); empty and \<open>.\<close> segments are dropped; a \<open>..\<close>
  removes the segment retained last when there is one and is dropped otherwise; the retained
  segments are written out, each behind a \<open>/\<close>, and \<open>/\<close> alone when none is retained.
  The function is total: no path raises. The path of a hierarchical result is this normal
  form of the path text, and the paths of \<open>http://h/a/b/../c\<close> and \<open>http://h/a/../../c\<close>
  are \<open>/a/c\<close> and \<open>/c\<close>.
\<close>

theorem path_normalization:
  "normalize_path p sch = spec_normalize_path p sch
   \<and> path_segments segs [] = retained_segments segs []
   \<and> py_join (ord CHR ''/'') (py_split (ord CHR ''/'') p) = p
   \<and> (\<forall>seg \<in> set (py_split (ord CHR ''/'') p). ord CHR ''/'' \<notin> set seg)
   \<and> (\<forall>r. parse L s = Inr r \<and> get_handler L (scheme r) = HierarchicalHandler \<longrightarrow>
         path r = spec_normalize_path (path_text (py_strip s) (body_index s)) (scheme r))
   \<and> (\<exists>r. parse L (lit ''http://h/a/b/../c'') = Inr r \<and> path r = lit ''/a/c'')
   \<and> (\<exists>r. parse L (lit ''http://h/a/../../c'') = Inr r \<and> path r = lit ''/c'')"
proof (intro conjI allI impI ballI)
  show "normalize_path p sch = spec_normalize_path p sch" by (rule normalize_path_spec)
  show "path_segments segs [] = retained_segments segs []"
    by (simp add: path_segments_retained)
  show "py_join (ord CHR ''/'') (py_split (ord CHR ''/'') p) = p" by (rule py_join_split)
next
  fix seg assume "seg \<in> set (py_split (ord CHR ''/'') p)"
  then show "ord CHR ''/'' \<notin> set seg" by (rule py_split_no_sep)
next
  fix r
  assume a: "parse L s = Inr r \<and> get_handler L (scheme r) = HierarchicalHandler"
  then have p: "parse L s = Inr r" and g: "get_handler L (scheme r) = HierarchicalHandler"
    by simp_all
  note f = parse_hier_fields [OF p g]
  show "path r = spec_normalize_path (path_text (py_strip s) (body_index s)) (scheme r)"
    using f(1) f(5) by (simp add: normalize_path_spec)
next
  have "parse L (lit ''http://h/a/b/../c'') =
      Inr \<lparr>scheme = lit ''http'', username = [], password = [], host = lit ''h'', port = [],
        path = lit ''/a/c'', query = [], fragment = [], opaque = []\<rparr>"
    by (simp add: parse_eval)
  then show "\<exists>r. parse L (lit ''http://h/a/b/../c'') = Inr r \<and> path r = lit ''/a/c''"
    by simp
next
  have "parse L (lit ''http://h/a/../../c'') =
      Inr \<lparr>scheme = lit ''http'', username = [], password = [], host = lit ''h'', port = [],
        path = lit ''/c'', query = [], fragment = [], opaque = []\<rparr>"
    by (simp add: parse_eval)
  then show "\<exists>r. parse L (lit ''http://h/a/../../c'') = Inr r \<and> path r = lit ''/c''"
    by simp
qed

theorem path_normalization_witness:
  "\<forall>L. normalize_path (lit ''x/./y//../../../z/..'') (lit ''http'') = lit ''/''
     \<and> normalize_path (lit ''a/../../b/c/./..'') (lit ''git'') = lit ''/b''
     \<and> (\<exists>r. parse L (lit ''ssh://h/a/b/../../../c/./d/'') = Inr r \<and> path r = lit ''/c/d'')"
proof
  fix L :: pylib
  define s where "s = lit ''ssh://h/a/b/../../../c/./d/''"
  have e: "parse L s =
      Inr \<lparr>scheme = lit ''ssh'', username = [], password = [], host = lit ''h'', port = [],
        path = lit ''/c/d'', query = [], fragment = [], opaque = []\<rparr>"
    by (simp add: s_def parse_eval)
  have gh: "get_handler L (lit ''ssh'') = HierarchicalHandler"
    by (simp add: parse_eval)
  have st: "py_strip s = s" by (simp add: s_def py_strip_def py_isspace_def)
  have bi: "body_index s = 4" by (simp add: s_def text_eval parse_eval)
  have pt: "path_text s 4 = lit ''/a/b/../../../c/./d/''"
    by (simp add: s_def text_eval authority_stop_def path_stop_def)
  have sp: "spec_normalize_path (lit ''/a/b/../../../c/./d/'') (lit ''ssh'') = lit ''/c/d''"
    by (simp add: spec_normalize_path_def Let_def py_startswith_def)
  have n1: "spec_normalize_path (lit ''x/./y//../../../z/..'') (lit ''http'') = lit ''/''"
    by (simp add: spec_normalize_path_def Let_def py_startswith_def)
  have n2: "spec_normalize_path (lit ''a/../../b/c/./..'') (lit ''git'') = lit ''/b''"
    by (simp add: spec_normalize_path_def Let_def py_startswith_def)
  from path_normalization [of "lit ''x/./y//../../../z/..''" "lit ''http''" "[]" L s]
  have 1: "normalize_path (lit ''x/./y//../../../z/..'') (lit ''http'') = lit ''/''"
    unfolding n1 by blast
  from path_normalization [of "lit ''a/../../b/c/./..''" "lit ''git''" "[]" L s]
  have 2: "normalize_path (lit ''a/../../b/c/./..'') (lit ''git'') = lit ''/b''"
    unfolding n2 by blast
  from path_normalization [of "[]" "[]" "[]" L s] e gh
  have "path \<lparr>scheme = lit ''ssh'', username = [], password = [], host = lit ''h'', port = [],
        path = lit ''/c/d'', query = [], fragment = [], opaque = []\<rparr> = lit ''/c/d''"
    unfolding st bi pt by (simp add: sp)
  with 1 2 e
  show "normalize_path (lit ''x/./y//../../../z/..'') (lit ''http'') = lit ''/''
     \<and> normalize_path (lit ''a/../../b/c/./..'') (lit ''git'') = lit ''/b''
     \<and> (\<exists>r. parse L (lit ''ssh://h/a/b/../../../c/./d/'') = Inr r \<and> path r = lit ''/c/d'')"
    unfolding s_def by simp
qed

section \<open>The port\<close>

text \<open>
  Claim C6. The port of a successful parse is empty, or it is a decimal numeral without
  leading zeros whose value is not the default port of the result's scheme. The port of a
  hierarchical result is \<open>normalize_port\<close> of the port text of the authority.
  \<open>normalize_port\<close> returns the empty string for an empty port, for one that is not all
  digits, and for one whose value is the scheme's default; every other port it returns as
  \<open>str\<close> of its value, which is the canonical numeral of that value. The defaults are 80
  for \<open>http\<close> and \<open>ws\<close>, 443 for \<open>https\<close> and \<open>wss\<close>, 21 for \<open>ftp\<close>, and none for
  any other scheme. The port of \<open>http://host:80/\<close> is empty.
\<close>

theorem port_invariant:
  "(\<forall>r. parse L s = Inr r \<longrightarrow>
       port r = []
       \<or> (canonical_decimal (port r)
           \<and> default_port (scheme r) \<noteq> Some (decimal_value (port r))))
   \<and> (\<forall>r. parse L s = Inr r \<and> get_handler L (scheme r) = HierarchicalHandler \<longrightarrow>
         normalize_port L (snd (raw_host_port L s)) (scheme r) = Inr (port r))
   \<and> (p = [] \<or> \<not> is_digit_string L p \<longrightarrow> normalize_port L p sch = Inr [])
   \<and> (p \<noteq> [] \<and> is_digit_string L p \<and> py_int L p = Inr n \<longrightarrow>
         normalize_port L p sch = Inr (if default_port sch = Some n then [] else py_str n))
   \<and> (p \<noteq> [] \<and> list_all ascii_digit p \<and> length p \<le> 4300 \<longrightarrow>
         is_digit_string L p \<and> py_int L p = Inr (decimal_value p))
   \<and> canonical_decimal (py_str n) \<and> decimal_value (py_str n) = n
   \<and> default_port (lit ''http'') = Some 80 \<and> default_port (lit ''https'') = Some 443
   \<and> default_port (lit ''ftp'') = Some 21 \<and> default_port (lit ''ws'') = Some 80
   \<and> default_port (lit ''wss'') = Some 443
   \<and> (sch \<notin> {lit ''http'', lit ''https'', lit ''ftp'', lit ''ws'', lit ''wss''} \<longrightarrow>
         default_port sch = None)
   \<and> (\<exists>r. parse L (lit ''http://host:80/'') = Inr r \<and> port r = [])"
proof -
  have c1: "port r = []
       \<or> (canonical_decimal (port r)
           \<and> default_port (scheme r) \<noteq> Some (decimal_value (port r)))"
    if p: "parse L s = Inr r" for r
  proof (cases "get_handler L (scheme r)")
    case OpaqueHandler
    from parse_Inr_cases [OF p] have "scheme_ok s" by simp
    have "scheme r = uri_scheme s"
      using parse_Inr_cases [OF p]
      by (cases "get_handler L (uri_scheme s)") (auto simp: opaque_result_eq hier_result_fields)
    with OpaqueHandler parse_Inr_cases [OF p] have "r = opaque_result L s" by simp
    then show ?thesis by (simp add: opaque_result_eq)
  next
    case HierarchicalHandler
    note f = parse_hier_fields [OF p HierarchicalHandler]
    from normalize_port_cases [OF f(4)] f(1)
    show ?thesis by (auto simp: canonical_py_str decimal_value_py_str)
  qed
  have c2: "normalize_port L (snd (raw_host_port L s)) (scheme r) = Inr (port r)"
    if "parse L s = Inr r \<and> get_handler L (scheme r) = HierarchicalHandler" for r
  proof -
    from that have p: "parse L s = Inr r" and g: "get_handler L (scheme r) = HierarchicalHandler"
      by simp_all
    from parse_hier_fields(1,4) [OF p g] show ?thesis by simp
  qed
  have c3: "p = [] \<or> \<not> is_digit_string L p \<longrightarrow> normalize_port L p sch = Inr []"
    by (auto simp: normalize_port_def)
  have c4: "p \<noteq> [] \<and> is_digit_string L p \<and> py_int L p = Inr n \<longrightarrow>
         normalize_port L p sch = Inr (if default_port sch = Some n then [] else py_str n)"
    by (auto simp: normalize_port_def)
  have c5: "p \<noteq> [] \<and> list_all ascii_digit p \<and> length p \<le> 4300 \<longrightarrow>
         is_digit_string L p \<and> py_int L p = Inr (decimal_value p)"
    by (auto simp: is_digit_string_def py_isdigit_def py_int_def decimal_value_def
        ascii_digit_def is_ascii_def list_all_iff)
  have c6: "canonical_decimal (py_str n) \<and> decimal_value (py_str n) = n"
    by (simp add: canonical_py_str decimal_value_py_str)
  have c7: "default_port (lit ''http'') = Some 80 \<and> default_port (lit ''https'') = Some 443
   \<and> default_port (lit ''ftp'') = Some 21 \<and> default_port (lit ''ws'') = Some 80
   \<and> default_port (lit ''wss'') = Some 443"
    by (simp add: default_port_def)
  have c8: "sch \<notin> {lit ''http'', lit ''https'', lit ''ftp'', lit ''ws'', lit ''wss''} \<longrightarrow>
         default_port sch = None"
    by (simp add: default_port_def)
  have "parse L (lit ''http://host:80/'') =
      Inr \<lparr>scheme = lit ''http'', username = [], password = [], host = lit ''host'', port = [],
        path = lit ''/'', query = [], fragment = [], opaque = []\<rparr>"
    by (simp add: parse_eval)
  then have c9: "\<exists>r. parse L (lit ''http://host:80/'') = Inr r \<and> port r = []" by simp
  from c1 c2 c3 c4 c5 c6 c7 c8 c9 show ?thesis by blast
qed

theorem port_invariant_witness:
  "\<forall>L. (\<exists>r. parse L (lit ''https://h:08080/'') = Inr r \<and> port r = lit ''8080''
            \<and> canonical_decimal (port r) \<and> decimal_value (port r) = 8080)
     \<and> normalize_port L (lit ''0443'') (lit ''https'') = Inr []
     \<and> normalize_port L (lit ''80a'') (lit ''ftp'') = Inr []
     \<and> normalize_port L (lit ''0080'') (lit ''ftp'') = Inr (lit ''80'')"
proof
  fix L :: pylib
  define s where "s = lit ''https://h:08080/''"
  have e: "parse L s =
      Inr \<lparr>scheme = lit ''https'', username = [], password = [], host = lit ''h'',
        port = lit ''8080'', path = lit ''/'', query = [], fragment = [], opaque = []\<rparr>"
    by (simp add: s_def parse_eval py_str.simps)
  have ps: "py_str 8080 = lit ''8080''" "py_str 80 = lit ''80''"
    by (simp_all add: py_str.simps)
  have dv: "decimal_value (lit ''0443'') = 443" "decimal_value (lit ''0080'') = 80"
    by (simp_all add: decimal_value_def)
  have nd: "\<not> is_digit_string L (lit ''80a'')"
    by (simp add: is_digit_string_def py_isdigit_def is_ascii_def ascii_digit_def)
  have ad: "list_all ascii_digit (lit ''0443'')" "list_all ascii_digit (lit ''0080'')"
    by (simp_all add: ascii_digit_def)
  note t = port_invariant [of L s]
  from t [of "[]" "[]" 8080] e
  have 1: "canonical_decimal (lit ''8080'') \<and> decimal_value (lit ''8080'') = 8080"
    unfolding ps by blast
  from port_invariant [of L s "lit ''0443''" "lit ''https''" 443] ad dv
  have 2: "normalize_port L (lit ''0443'') (lit ''https'') = Inr []"
    by simp
  from port_invariant [of L s "lit ''80a''" "lit ''ftp''" 0] nd
  have 3: "normalize_port L (lit ''80a'') (lit ''ftp'') = Inr []"
    by blast
  from port_invariant [of L s "lit ''0080''" "lit ''ftp''" 80] ad dv
  have 4: "normalize_port L (lit ''0080'') (lit ''ftp'') = Inr (lit ''80'')"
    by (simp add: ps)
  from e 1 2 3 4
  show "(\<exists>r. parse L (lit ''https://h:08080/'') = Inr r \<and> port r = lit ''8080''
            \<and> canonical_decimal (port r) \<and> decimal_value (port r) = 8080)
     \<and> normalize_port L (lit ''0443'') (lit ''https'') = Inr []
     \<and> normalize_port L (lit ''80a'') (lit ''ftp'') = Inr []
     \<and> normalize_port L (lit ''0080'') (lit ''ftp'') = Inr (lit ''80'')"
    unfolding s_def by simp
qed

section \<open>Stripping\<close>

lemma strip_both_ends:
  assumes "x = rev (dropWhile P (rev (dropWhile P s)))"
  shows "\<exists>a b. s = a @ x @ b \<and> list_all P a \<and> list_all P b
           \<and> (x \<noteq> [] \<longrightarrow> \<not> P (hd x) \<and> \<not> P (last x))"
proof -
  define a where "a = takeWhile P s"
  define y where "y = dropWhile P s"
  define b where "b = rev (takeWhile P (rev y))"
  have s: "s = a @ y" by (simp add: a_def y_def)
  have "rev (takeWhile P (rev y) @ dropWhile P (rev y)) = rev (rev y)"
    by (simp only: takeWhile_dropWhile_id)
  then have "rev (dropWhile P (rev y)) @ rev (takeWhile P (rev y)) = y"
    by (simp only: rev_append rev_rev_ident)
  then have y: "y = x @ b" unfolding assms b_def y_def by (rule sym)
  have pa: "list_all P a" by (auto simp: a_def list_all_iff dest: set_takeWhileD)
  have pb: "list_all P b" by (auto simp: b_def list_all_iff dest: set_takeWhileD)
  have ends: "\<not> P (hd x) \<and> \<not> P (last x)" if ne: "x \<noteq> []"
  proof -
    from ne y have yne: "y \<noteq> []" by auto
    then have "\<not> P (hd y)" unfolding y_def by (rule hd_dropWhile)
    moreover have "hd y = hd x" using y ne by simp
    moreover
    have dne: "dropWhile P (rev y) \<noteq> []" using ne by (auto simp: assms y_def)
    then have "\<not> P (hd (dropWhile P (rev y)))" by (rule hd_dropWhile)
    moreover have "last x = hd (dropWhile P (rev y))"
      using dne by (simp add: assms y_def last_rev)
    ultimately show ?thesis by simp
  qed
  from s y pa pb ends show ?thesis by auto
qed

lemma py_strip_ends:
  "\<exists>a b. s = a @ py_strip s @ b \<and> list_all py_isspace a \<and> list_all py_isspace b
         \<and> (py_strip s \<noteq> [] \<longrightarrow> \<not> py_isspace (hd (py_strip s)) \<and> \<not> py_isspace (last (py_strip s)))"
  using strip_both_ends [of "py_strip s" py_isspace s] by (simp add: py_strip_def)

lemma py_strip_char_ends:
  "\<exists>a b. s = a @ py_strip_char d s @ b \<and> list_all (\<lambda>c. c = d) a \<and> list_all (\<lambda>c. c = d) b
         \<and> (py_strip_char d s \<noteq> [] \<longrightarrow> hd (py_strip_char d s) \<noteq> d \<and> last (py_strip_char d s) \<noteq> d)"
  using strip_both_ends [of "py_strip_char d s" "\<lambda>c. c = d" s] by (simp add: py_strip_char_def)

lemma set_py_strip: "set (py_strip s) \<subseteq> set s"
  by (auto simp: py_strip_def dest!: set_dropWhileD)

lemma set_py_strip_char: "set (py_strip_char d s) \<subseteq> set s"
  by (auto simp: py_strip_char_def dest!: set_dropWhileD)

lemma ascii_no_non_ascii: "list_all is_ascii s \<longleftrightarrow> \<not> contains_non_ascii s"
  by (auto simp: contains_non_ascii_def is_ascii_def list_all_iff list_ex_iff)

lemma normalize_host_eq:
  "normalize_host L h =
     (if contains_non_ascii (py_lower L (py_strip_char (ord CHR ''.'') (py_strip h)))
      then (case idna_encode L (py_lower L (py_strip_char (ord CHR ''.'') (py_strip h))) of
              None \<Rightarrow> Inl IDNAError
            | Some b \<Rightarrow> if list_all is_ascii b then Inr b else Inl UnicodeDecodeError)
      else Inr (py_lower L (py_strip_char (ord CHR ''.'') (py_strip h))))"
  by (simp add: normalize_host_def decode_ascii_def Let_def split: option.splits)

lemma normalize_host_ascii: "normalize_host L h = Inr x \<Longrightarrow> list_all is_ascii x"
  by (auto simp: normalize_host_eq ascii_no_non_ascii split: if_splits option.splits)

lemma map_ascii_lower_ascii: "list_all is_ascii s \<Longrightarrow> list_all is_ascii (map ascii_lower s)"
  by (simp add: list_all_iff)

lemma parse_hier_host:
  assumes "parse L s = Inr r" and "get_handler L (scheme r) = HierarchicalHandler"
  shows "\<exists>h. normalize_host L (fst (raw_host_port L s)) = Inr h \<and> host r = map ascii_lower h"
proof -
  from parse_hier_fields(3) [OF assms] obtain h where
    h: "normalize_host L (fst (raw_host_port L s)) = Inr h" and
    r: "host r = (if h = [] then [] else py_lower L h)" by blast
  from normalize_host_ascii [OF h] have "py_lower L h = map ascii_lower h"
    by (rule py_lower_ascii)
  with r have "host r = map ascii_lower h" by simp
  with h show ?thesis by blast
qed

lemma takeWhile_until: "d \<notin> set h \<Longrightarrow> takeWhile (\<lambda>c. c \<noteq> d) (h @ d # rest) = h"
  by (induction h) auto

lemma dropWhile_until: "d \<notin> set h \<Longrightarrow> dropWhile (\<lambda>c. c \<noteq> d) (h @ d # rest) = d # rest"
  by (induction h) auto

section \<open>The host\<close>

text \<open>
  Claim C10. The host of a successful hierarchical parse is the host text of the authority,
  normalized: white space is stripped from both ends, then the dots from both ends, then it
  is put in lower case, and it is IDNA-encoded when a code point outside ASCII remains
  (\<open>normalize_host\<close>); the final \<open>normalize\<close> pass puts it in lower case once more.
  For an ASCII host text the host is therefore exactly the stripped text in lower case.
  Stripping removes a run of the stripped characters at each end and leaves a string that
  neither begins nor ends with one. The authority \<open>.example.com.\<close> gives the host
  \<open>example.com\<close>.
\<close>

theorem host_normalization:
  "(\<forall>r. parse L s = Inr r \<and> get_handler L (scheme r) = HierarchicalHandler \<longrightarrow>
       (\<exists>x. normalize_host L (fst (raw_host_port L s)) = Inr x \<and> host r = map ascii_lower x)
       \<and> (list_all is_ascii (fst (raw_host_port L s)) \<longrightarrow>
            host r = map ascii_lower
                       (py_strip_char (ord CHR ''.'') (py_strip (fst (raw_host_port L s))))))
   \<and> normalize_host L h =
       (if contains_non_ascii (py_lower L (py_strip_char (ord CHR ''.'') (py_strip h)))
        then (case idna_encode L (py_lower L (py_strip_char (ord CHR ''.'') (py_strip h))) of
                None \<Rightarrow> Inl IDNAError
              | Some b \<Rightarrow> if list_all is_ascii b then Inr b else Inl UnicodeDecodeError)
        else Inr (py_lower L (py_strip_char (ord CHR ''.'') (py_strip h))))
   \<and> (list_all is_ascii h \<longrightarrow>
        normalize_host L h = Inr (map ascii_lower (py_strip_char (ord CHR ''.'') (py_strip h))))
   \<and> (\<exists>a b. h = a @ py_strip h @ b \<and> list_all py_isspace a \<and> list_all py_isspace b
          \<and> (py_strip h \<noteq> [] \<longrightarrow>
               \<not> py_isspace (hd (py_strip h)) \<and> \<not> py_isspace (last (py_strip h))))
   \<and> (\<exists>a b. h = a @ py_strip_char (ord CHR ''.'') h @ b
          \<and> list_all (\<lambda>c. c = ord CHR ''.'') a \<and> list_all (\<lambda>c. c = ord CHR ''.'') b
          \<and> (py_strip_char (ord CHR ''.'') h \<noteq> [] \<longrightarrow>
               hd (py_strip_char (ord CHR ''.'') h) \<noteq> ord CHR ''.''
               \<and> last (py_strip_char (ord CHR ''.'') h) \<noteq> ord CHR ''.''))
   \<and> (\<exists>r. parse L (lit ''http://.example.com./'') = Inr r \<and> host r = lit ''example.com'')"
proof -
  have asc: "normalize_host L h = Inr (map ascii_lower (py_strip_char (ord CHR ''.'') (py_strip h)))"
    if a: "list_all is_ascii h" for h
  proof -
    have "set (py_strip_char (ord CHR ''.'') (py_strip h)) \<subseteq> set h"
      using set_py_strip_char [of "ord CHR ''.''" "py_strip h"] set_py_strip [of h] by blast
    with a have b: "list_all is_ascii (py_strip_char (ord CHR ''.'') (py_strip h))"
      by (auto simp: list_all_iff)
    then have l: "py_lower L (py_strip_char (ord CHR ''.'') (py_strip h)) =
        map ascii_lower (py_strip_char (ord CHR ''.'') (py_strip h))"
      by (rule py_lower_ascii)
    from map_ascii_lower_ascii [OF b]
    have "\<not> contains_non_ascii (map ascii_lower (py_strip_char (ord CHR ''.'') (py_strip h)))"
      using ascii_no_non_ascii by blast
    then show ?thesis unfolding normalize_host_eq l by simp
  qed
  have c1: "(\<exists>x. normalize_host L (fst (raw_host_port L s)) = Inr x \<and> host r = map ascii_lower x)
       \<and> (list_all is_ascii (fst (raw_host_port L s)) \<longrightarrow>
            host r = map ascii_lower
                       (py_strip_char (ord CHR ''.'') (py_strip (fst (raw_host_port L s)))))"
    if a: "parse L s = Inr r \<and> get_handler L (scheme r) = HierarchicalHandler" for r
  proof -
    from a have p: "parse L s = Inr r" and g: "get_handler L (scheme r) = HierarchicalHandler"
      by simp_all
    from parse_hier_host [OF p g] obtain x where
      x: "normalize_host L (fst (raw_host_port L s)) = Inr x" and hr: "host r = map ascii_lower x"
      by blast
    have "host r = map ascii_lower
                       (py_strip_char (ord CHR ''.'') (py_strip (fst (raw_host_port L s))))"
      if "list_all is_ascii (fst (raw_host_port L s))"
      using asc [OF that] x hr by simp
    with x hr show ?thesis by blast
  qed
  have c5: "parse L (lit ''http://.example.com./'') =
      Inr \<lparr>scheme = lit ''http'', username = [], password = [], host = lit ''example.com'',
        port = [], path = lit ''/'', query = [], fragment = [], opaque = []\<rparr>"
    by (simp add: parse_eval)
  then have c5': "\<exists>r. parse L (lit ''http://.example.com./'') = Inr r \<and> host r = lit ''example.com''"
    by simp
  from c1 normalize_host_eq [of L h] asc [of h] py_strip_ends [of h]
    py_strip_char_ends [of h "ord CHR ''.''"] c5'
  show ?thesis by blast
qed

theorem host_normalization_witness:
  "\<forall>L. (\<exists>r. parse L (lit ''http://u@ ..Ex.Org. :81/'') = Inr r \<and> host r = lit ''ex.org''
            \<and> port r = lit ''81'')
     \<and> fst (raw_host_port L (lit ''http://u@ ..Ex.Org. :81/'')) = lit '' ..Ex.Org. ''
     \<and> normalize_host L (lit ''.A..'') = Inr (lit ''a'')"
proof
  fix L :: pylib
  define s where "s = lit ''http://u@ ..Ex.Org. :81/''"
  define r0 where "r0 = \<lparr>scheme = lit ''http'', username = lit ''u'', password = [],
        host = lit ''ex.org'', port = lit ''81'', path = lit ''/'', query = [], fragment = [],
        opaque = []\<rparr>"
  have e: "parse L s = Inr r0"
    by (simp add: s_def r0_def parse_eval py_str.simps)
  have gh: "get_handler L (scheme r0) = HierarchicalHandler"
    by (simp add: r0_def parse_eval)
  have raw: "fst (raw_host_port L s) = lit '' ..Ex.Org. ''"
    by (simp add: s_def text_eval parse_eval)
  have ra: "list_all is_ascii (lit '' ..Ex.Org. '')" by (simp add: is_ascii_def)
  have st: "map ascii_lower (py_strip_char (ord CHR ''.'') (py_strip (lit '' ..Ex.Org. ''))) =
      lit ''ex.org''"
    by (simp add: py_strip_def py_strip_char_def py_isspace_def ascii_lower_def)
  have st2: "map ascii_lower (py_strip_char (ord CHR ''.'') (py_strip (lit ''.A..''))) = lit ''a''"
    by (simp add: py_strip_def py_strip_char_def py_isspace_def ascii_lower_def)
  have a2: "list_all is_ascii (lit ''.A..'')" by (simp add: is_ascii_def)
  note t = host_normalization [of L s "lit ''.A..''"]
  from t have "parse L s = Inr r0 \<and> get_handler L (scheme r0) = HierarchicalHandler \<longrightarrow>
      (list_all is_ascii (fst (raw_host_port L s)) \<longrightarrow>
            host r0 = map ascii_lower
                       (py_strip_char (ord CHR ''.'') (py_strip (fst (raw_host_port L s)))))"
    by blast
  with e gh ra have h: "host r0 = lit ''ex.org''" unfolding raw st by blast
  from t have "list_all is_ascii (lit ''.A..'') \<longrightarrow>
        normalize_host L (lit ''.A..'') =
          Inr (map ascii_lower (py_strip_char (ord CHR ''.'') (py_strip (lit ''.A..''))))"
    by blast
  with a2 have n: "normalize_host L (lit ''.A..'') = Inr (lit ''a'')" unfolding st2 by blast
  have p: "port r0 = lit ''81''" by (simp add: r0_def)
  from e h p raw n
  show "(\<exists>r. parse L (lit ''http://u@ ..Ex.Org. :81/'') = Inr r \<and> host r = lit ''ex.org''
            \<and> port r = lit ''81'')
     \<and> fst (raw_host_port L (lit ''http://u@ ..Ex.Org. :81/'')) = lit '' ..Ex.Org. ''
     \<and> normalize_host L (lit ''.A..'') = Inr (lit ''a'')"
    unfolding s_def by blast
qed

section \<open>Bracketed hosts\<close>

text \<open>
  Claim C7, amended. When the residual authority buffer starts with \<open>[\<close> and contains
  \<open>]\<close>, the host text is what stands between that \<open>[\<close> and the first \<open>]\<close>, and the port
  text is what follows this \<open>]\<close> when that begins with a colon (without the colon), and
  empty otherwise. A buffer that contains both brackets but does not start with \<open>[\<close> is the
  host text as a whole, with an empty port text. Host and port of the result are these
  texts, normalized. The host of \<open>http://[::1]:8080/x\<close> is \<open>::1\<close> and its port
  \<open>8080\<close>.
\<close>

theorem ipv6_literal:
  "(ord CHR '']'' \<notin> set h \<longrightarrow>
      authority_host_port (ord CHR ''['' # h @ ord CHR '']'' # rest) =
        (h, if py_startswith rest (ord CHR '':'') then tl rest else []))
   \<and> (py_startswith buffer (ord CHR ''['') \<and> ord CHR '']'' \<in> set buffer \<longrightarrow>
        (\<exists>h rest. buffer = ord CHR ''['' # h @ ord CHR '']'' # rest \<and> ord CHR '']'' \<notin> set h))
   \<and> (ord CHR ''['' \<in> set buffer \<and> ord CHR '']'' \<in> set buffer
        \<and> \<not> py_startswith buffer (ord CHR ''['') \<longrightarrow>
        authority_host_port buffer = (buffer, []))
   \<and> (\<forall>r. parse L s = Inr r \<and> get_handler L (scheme r) = HierarchicalHandler \<longrightarrow>
         (\<exists>x. normalize_host L (fst (authority_host_port (fst (authority_state L s)))) = Inr x
               \<and> host r = map ascii_lower x)
         \<and> normalize_port L (snd (authority_host_port (fst (authority_state L s)))) (scheme r)
             = Inr (port r))
   \<and> (\<exists>r. parse L (lit ''http://[::1]:8080/x'') = Inr r
          \<and> host r = lit ''::1'' \<and> port r = lit ''8080'')"
proof -
  have c1: "authority_host_port (ord CHR ''['' # h @ ord CHR '']'' # rest) =
        (h, if py_startswith rest (ord CHR '':'') then tl rest else [])"
    if n: "ord CHR '']'' \<notin> set h"
  proof -
    from n have tw: "takeWhile (\<lambda>c. c \<noteq> ord CHR '']'') (h @ ord CHR '']'' # rest) = h"
      by (rule takeWhile_until)
    have ix: "py_index (ord CHR ''['' # h @ ord CHR '']'' # rest) (ord CHR '']'') = Suc (length h)"
      unfolding py_index_def using tw by simp
    show ?thesis
      unfolding authority_host_port_def parse_ipv6_def ix Let_def
      by (cases rest) (simp_all add: py_startswith_def)
  qed
  have c2: "\<exists>h rest. buffer = ord CHR ''['' # h @ ord CHR '']'' # rest \<and> ord CHR '']'' \<notin> set h"
    if a: "py_startswith buffer (ord CHR ''['') \<and> ord CHR '']'' \<in> set buffer"
  proof -
    from a obtain t where b: "buffer = ord CHR ''['' # t"
      by (cases buffer) (auto simp: py_startswith_def)
    with a have "ord CHR '']'' \<in> set t" by auto
    then obtain h rest where "t = h @ ord CHR '']'' # rest" and "ord CHR '']'' \<notin> set h"
      by (auto dest: split_list_first)
    with b show ?thesis by blast
  qed
  have c3: "authority_host_port buffer = (buffer, [])"
    if "ord CHR ''['' \<in> set buffer \<and> ord CHR '']'' \<in> set buffer
        \<and> \<not> py_startswith buffer (ord CHR ''['')"
    using that by (simp add: authority_host_port_def parse_ipv6_def)
  have c4: "(\<exists>x. normalize_host L (fst (authority_host_port (fst (authority_state L s)))) = Inr x
               \<and> host r = map ascii_lower x)
         \<and> normalize_port L (snd (authority_host_port (fst (authority_state L s)))) (scheme r)
             = Inr (port r)"
    if a: "parse L s = Inr r \<and> get_handler L (scheme r) = HierarchicalHandler" for r
  proof -
    from a have p: "parse L s = Inr r" and g: "get_handler L (scheme r) = HierarchicalHandler"
      by simp_all
    from parse_hier_host [OF p g] parse_hier_fields(1,4) [OF p g]
    show ?thesis by (simp add: raw_host_port_def)
  qed
  have "parse L (lit ''http://[::1]:8080/x'') =
      Inr \<lparr>scheme = lit ''http'', username = [], password = [], host = lit ''::1'',
        port = lit ''8080'', path = lit ''/x'', query = [], fragment = [], opaque = []\<rparr>"
    by (simp add: parse_eval py_str.simps)
  then have c5: "\<exists>r. parse L (lit ''http://[::1]:8080/x'') = Inr r
          \<and> host r = lit ''::1'' \<and> port r = lit ''8080''"
    by simp
  from c1 c2 c3 c4 c5 show ?thesis by blast
qed

theorem ipv6_literal_witness:
  "\<forall>L. authority_host_port (lit ''[fe80::1]:443'') = (lit ''fe80::1'', lit ''443'')
     \<and> authority_host_port (lit ''[fe80::1]x:443'') = (lit ''fe80::1'', [])
     \<and> authority_host_port (lit ''a[b]:1'') = (lit ''a[b]:1'', [])
     \<and> (\<exists>r. parse L (lit ''ftp://[FE80::1]:2121/'') = Inr r \<and> host r = lit ''fe80::1''
            \<and> port r = lit ''2121'')"
proof
  fix L :: pylib
  define s where "s = lit ''ftp://[FE80::1]:2121/''"
  define r0 where "r0 = \<lparr>scheme = lit ''ftp'', username = [], password = [],
        host = lit ''fe80::1'', port = lit ''2121'', path = lit ''/'', query = [], fragment = [],
        opaque = []\<rparr>"
  have e: "parse L s = Inr r0"
    by (simp add: s_def r0_def parse_eval py_str.simps)
  from ipv6_literal [of "lit ''fe80::1''" "lit '':443''" "lit ''a[b]:1''" L s]
  have 1: "authority_host_port (lit ''[fe80::1]:443'') = (lit ''fe80::1'', lit ''443'')"
    by (simp add: py_startswith_def)
  from ipv6_literal [of "lit ''fe80::1''" "lit ''x:443''" "lit ''a[b]:1''" L s]
  have 2: "authority_host_port (lit ''[fe80::1]x:443'') = (lit ''fe80::1'', [])"
    by (simp add: py_startswith_def)
  from ipv6_literal [of "lit ''fe80::1''" "lit ''x:443''" "lit ''a[b]:1''" L s]
  have 3: "authority_host_port (lit ''a[b]:1'') = (lit ''a[b]:1'', [])"
    by (simp add: py_startswith_def)
  have "host r0 = lit ''fe80::1''" "port r0 = lit ''2121''" by (simp_all add: r0_def)
  with e 1 2 3
  show "authority_host_port (lit ''[fe80::1]:443'') = (lit ''fe80::1'', lit ''443'')
     \<and> authority_host_port (lit ''[fe80::1]x:443'') = (lit ''fe80::1'', [])
     \<and> authority_host_port (lit ''a[b]:1'') = (lit ''a[b]:1'', [])
     \<and> (\<exists>r. parse L (lit ''ftp://[FE80::1]:2121/'') = Inr r \<and> host r = lit ''fe80::1''
            \<and> port r = lit ''2121'')"
    unfolding s_def by blast
qed

text \<open>
  The claim as the specification words it fails on a buffer that contains both brackets and
  does not start with one: the buffer of \<open>http://x[::1]:8080/\<close> is \<open>x[::1]:8080\<close>, and
  the host is this whole buffer, not \<open>::1\<close>, and the port is empty, not \<open>8080\<close>.
\<close>

theorem ipv6_literal_counterexample:
  "fst (authority_state ascii_lib (lit ''http://x[::1]:8080/'')) = lit ''x[::1]:8080''
   \<and> ord CHR ''['' \<in> set (lit ''x[::1]:8080'')
   \<and> ord CHR '']'' \<in> set (lit ''x[::1]:8080'')
   \<and> parse ascii_lib (lit ''http://x[::1]:8080/'') =
       Inr \<lparr>scheme = lit ''http'', username = [], password = [], host = lit ''x[::1]:8080'',
            port = [], path = lit ''/'', query = [], fragment = [], opaque = []\<rparr>
   \<and> lit ''x[::1]:8080'' \<noteq> lit ''::1''"
  by (simp add: text_eval parse_eval)

section \<open>Userinfo\<close>

text \<open>
  Claim C2. At the second \<open>@\<close> of \<open>http://a:pw@b@host/\<close> the buffer \<open>b\<close> has no colon;
  the user name becomes \<open>b\<close>, but the password written with it is \<open>pw\<close>, the password
  of the first \<open>@\<close>, which the local variable still holds. The example of the claim,
  \<open>http://a@b@host/\<close>, has the user name \<open>b\<close>, an empty password and the host \<open>host\<close>.
\<close>

theorem userinfo_stale_password:
  "parse L (lit ''http://a:pw@b@host/'') =
     Inr \<lparr>scheme = lit ''http'', username = lit ''b'', password = lit ''pw'',
          host = lit ''host'', port = [], path = lit ''/'', query = [], fragment = [],
          opaque = []\<rparr>
   \<and> parse L (lit ''http://a@b@host/'') =
     Inr \<lparr>scheme = lit ''http'', username = lit ''b'', password = [],
          host = lit ''host'', port = [], path = lit ''/'', query = [], fragment = [],
          opaque = []\<rparr>"
  by (simp add: parse_eval)

section \<open>Reading a serialization back\<close>

lemma to_string_hier:
  "opaque u = [] \<Longrightarrow>
     to_string u =
       scheme u @ lit ''://'' @ userinfo_text u @ hostport_text u
       @ (if path u \<noteq> [] then path u else lit ''/'') @ query_fragment_text u"
  by (simp add: to_string_def userinfo_text_def hostport_text_def query_fragment_text_def)

lemma takeWhile_all_then_stop:
  assumes "\<forall>x\<in>set xs. P x" and "ys = [] \<or> \<not> P (hd ys)"
  shows "takeWhile P (xs @ ys) = xs" and "dropWhile P (xs @ ys) = ys"
proof -
  from assms(2) have t: "takeWhile P ys = []" and d: "dropWhile P ys = ys"
    by (cases ys; simp)+
  from assms(1) show "takeWhile P (xs @ ys) = xs" by (simp add: t)
  from assms(1) show "dropWhile P (xs @ ys) = ys" by (simp add: d)
qed

lemma py_strip_id:
  assumes "s \<noteq> []" and "\<not> py_isspace (hd s)" and "\<not> py_isspace (last s)"
  shows "py_strip s = s"
proof -
  from assms(1,2) have d: "dropWhile py_isspace s = s" by (cases s) simp_all
  from assms(1,3) have "dropWhile py_isspace (rev s) = rev s"
    by (cases "rev s") (simp_all add: hd_rev)
  then show ?thesis by (simp add: py_strip_def d)
qed

lemma alpha_not_space: "is_ascii_alpha c \<Longrightarrow> \<not> py_isspace c"
  by (auto simp: is_ascii_alpha_def py_isspace_def)

lemma alpha_lower: "is_ascii_alpha c \<Longrightarrow> is_ascii_alpha (ascii_lower c)"
  by (auto simp: is_ascii_alpha_def ascii_lower_def)

lemma uri_scheme_props:
  assumes "scheme_ok s"
  shows "uri_scheme s \<noteq> []" and "list_all is_ascii_alpha (uri_scheme s)"
    and "map ascii_lower (uri_scheme s) = uri_scheme s"
proof -
  from assms show "uri_scheme s \<noteq> []" by (simp add: scheme_ok_def uri_scheme_def)
  have "\<forall>c\<in>set (scheme_text s). is_ascii_alpha c"
    by (auto simp: scheme_text_def dest: set_takeWhileD)
  then show "list_all is_ascii_alpha (uri_scheme s)"
    by (auto simp: uri_scheme_def list_all_iff alpha_lower)
  show "map ascii_lower (uri_scheme s) = uri_scheme s"
    by (simp add: uri_scheme_def)
qed

lemma scheme_text_of_serialization:
  assumes "sch \<noteq> []" and "list_all is_ascii_alpha sch" and "py_strip (sch @ ord CHR '':'' # rest) = sch @ ord CHR '':'' # rest"
  shows "scheme_text (sch @ ord CHR '':'' # rest) = sch"
    and "scheme_ok (sch @ ord CHR '':'' # rest)"
    and "body_index (sch @ ord CHR '':'' # rest) = length sch + 1"
    and "drop (body_index (sch @ ord CHR '':'' # rest)) (py_strip (sch @ ord CHR '':'' # rest)) = rest"
proof -
  have na: "\<not> is_ascii_alpha (ord CHR '':'')" by (simp add: is_ascii_alpha_def)
  from assms(2) have al: "\<forall>x\<in>set sch. is_ascii_alpha x" by (simp add: list_all_iff)
  have tw: "takeWhile is_ascii_alpha (sch @ ord CHR '':'' # rest) = sch"
    using takeWhile_all_then_stop(1) [of sch is_ascii_alpha "ord CHR '':'' # rest"] al na by simp
  show st: "scheme_text (sch @ ord CHR '':'' # rest) = sch"
    unfolding scheme_text_def assms(3) by (rule tw)
  show "scheme_ok (sch @ ord CHR '':'' # rest)"
    unfolding scheme_ok_def st assms(3) using assms(1) by (simp add: py_startswith_def)
  show bi: "body_index (sch @ ord CHR '':'' # rest) = length sch + 1"
    unfolding body_index_def st ..
  show "drop (body_index (sch @ ord CHR '':'' # rest)) (py_strip (sch @ ord CHR '':'' # rest)) = rest"
    unfolding bi assms(3) by simp
qed

lemma parse_scheme_field:
  assumes "parse L s = Inr r"
  shows "scheme_ok s" and "scheme r = uri_scheme s"
proof -
  note c = parse_Inr_cases [OF assms]
  from c show "scheme_ok s" by simp
  show "scheme r = uri_scheme s"
  proof (cases "get_handler L (uri_scheme s)")
    case OpaqueHandler
    with c show ?thesis by (simp add: opaque_result_eq)
  next
    case HierarchicalHandler
    with c show ?thesis by (auto simp: hier_result_fields)
  qed
qed

lemma py_strip_last: "py_strip s \<noteq> [] \<Longrightarrow> \<not> py_isspace (last (py_strip s))"
  using py_strip_ends [of s] by blast

lemma reparse_opaque:
  assumes p: "parse L s = Inr r" and g: "get_handler L (scheme r) = OpaqueHandler"
    and o: "opaque r \<noteq> []"
  shows "parse L (to_string r) = Inr r"
proof -
  define sch where "sch = uri_scheme s"
  define rest where "rest = drop (body_index s) (py_strip s)"
  note ok = parse_scheme_field [OF p]
  from g ok have gs: "get_handler L (uri_scheme s) = OpaqueHandler" by simp
  with parse_Inr_cases [OF p] have "r = opaque_result L s" by simp
  then have r: "r = \<lparr>scheme = sch, username = [], password = [], host = [], port = [], path = [],
      query = [], fragment = [], opaque = rest\<rparr>"
    by (simp add: opaque_result_eq sch_def rest_def)
  from o r have ne: "rest \<noteq> []" by simp
  note sp = uri_scheme_props [OF ok(1), folded sch_def]
  have t: "to_string r = sch @ ord CHR '':'' # rest"
    using ne by (simp add: to_string_def r)
  have lst: "last rest = last (py_strip s)"
    using ne unfolding rest_def by (simp add: last_drop)
  from ne have "py_strip s \<noteq> []" by (auto simp: rest_def)
  then have nsp: "\<not> py_isspace (last rest)" unfolding lst by (rule py_strip_last)
  from sp(1,2) have "is_ascii_alpha (hd sch)" by (cases sch) (simp_all add: list_all_iff)
  then have hsp: "\<not> py_isspace (hd (sch @ ord CHR '':'' # rest))"
    using sp(1) by (simp add: alpha_not_space)
  have lsp: "\<not> py_isspace (last (sch @ ord CHR '':'' # rest))"
    using ne nsp by simp
  have st: "py_strip (sch @ ord CHR '':'' # rest) = sch @ ord CHR '':'' # rest"
    by (rule py_strip_id [OF _ hsp lsp]) simp
  note ser = scheme_text_of_serialization [OF sp(1) sp(2) st]
  have us: "uri_scheme (sch @ ord CHR '':'' # rest) = sch"
    unfolding uri_scheme_def ser(1) by (rule sp(3))
  have gh: "get_handler L (uri_scheme (sch @ ord CHR '':'' # rest)) = OpaqueHandler"
    unfolding us using gs by (simp add: sch_def)
  have "parse L (sch @ ord CHR '':'' # rest) = Inr (opaque_result L (sch @ ord CHR '':'' # rest))"
    by (rule parse_opaque_eq [OF ser(2) gh])
  also have "opaque_result L (sch @ ord CHR '':'' # rest) = r"
    unfolding opaque_result_eq us ser(4) r ..
  finally show ?thesis unfolding t .
qed

lemma hier_parts:
  fixes sch A P Q :: str
  defines "t \<equiv> sch @ ord CHR '':'' # ([ord CHR ''/'', ord CHR ''/''] @ A @ P @ Q)"
  assumes sch: "sch \<noteq> []" "list_all is_ascii_alpha sch"
    and A: "A \<noteq> []" "\<not> is_separator (hd A)" "\<forall>c\<in>set A. \<not> authority_stop c"
    and P: "P \<noteq> []" "hd P = ord CHR ''/''" "\<forall>c\<in>set P. \<not> path_stop c"
    and Q: "Q = [] \<or> path_stop (hd Q)"
    and st: "py_strip t = t"
  shows "scheme_ok t"
    and "uri_scheme t = map ascii_lower sch"
    and "separators t = lit ''//''"
    and "authority_text (py_strip t) (body_index t) = A"
    and "path_text (py_strip t) (body_index t) = P"
    and "after_path (py_strip t) (body_index t) = Q"
proof -
  note ser = scheme_text_of_serialization [OF sch st [unfolded t_def], folded t_def]
  show "scheme_ok t" by (rule ser(2))
  show "uri_scheme t = map ascii_lower sch" unfolding uri_scheme_def ser(1) ..
  have seps: "\<forall>x\<in>set [ord CHR ''/'', ord CHR ''/'']. is_separator x"
    by (simp add: is_separator_def)
  have nsep: "A @ P @ Q = [] \<or> \<not> is_separator (hd (A @ P @ Q))"
    using A(1,2) by simp
  note s1 = takeWhile_all_then_stop [OF seps nsep]
  show "separators t = lit ''//''"
    unfolding separators_def ser(4) s1(1) by simp
  have as: "after_separators (py_strip t) (body_index t) = A @ P @ Q"
    unfolding after_separators_def ser(4) by (rule s1(2))
  have stop: "P @ Q = [] \<or> \<not> \<not> authority_stop (hd (P @ Q))"
    using P(1,2) by (simp add: authority_stop_def)
  note s2 = takeWhile_all_then_stop [OF A(3) stop]
  show "authority_text (py_strip t) (body_index t) = A"
    unfolding authority_text_def as by (rule s2(1))
  have aa: "after_authority (py_strip t) (body_index t) = P @ Q"
    unfolding after_authority_def as by (rule s2(2))
  from Q have pstop: "Q = [] \<or> \<not> \<not> path_stop (hd Q)" by simp
  note s3 = takeWhile_all_then_stop [OF P(3) pstop]
  show "path_text (py_strip t) (body_index t) = P"
    unfolding path_text_def aa by (rule s3(1))
  show "after_path (py_strip t) (body_index t) = Q"
    unfolding after_path_def aa by (rule s3(2))
qed

text \<open>The authority loop on a text without \<open>@\<close>, and on a user info followed by one.\<close>

lemma authority_chars_no_at:
  "ord CHR ''@'' \<notin> set cs \<Longrightarrow> authority_chars L cs buf u p b = (buf @ cs, b)"
  by (induction cs arbitrary: buf) auto

lemma authority_chars_at:
  assumes "ord CHR ''@'' \<notin> set cs"
  shows "authority_chars L (cs @ ord CHR ''@'' # rest) [] u p b =
     authority_chars L rest []
       (if ord CHR '':'' \<in> set cs then fst (split_once cs (ord CHR '':'')) else cs)
       (if ord CHR '':'' \<in> set cs then snd (split_once cs (ord CHR '':'')) else p)
       (set_userinfo
          (percent_decode L
             (if ord CHR '':'' \<in> set cs then fst (split_once cs (ord CHR '':'')) else cs))
          (percent_decode L
             (if ord CHR '':'' \<in> set cs then snd (split_once cs (ord CHR '':'')) else p))
          b)"
proof -
  have "authority_chars L (cs @ ord CHR ''@'' # rest) buf u p b =
     authority_chars L rest []
       (if ord CHR '':'' \<in> set (buf @ cs) then fst (split_once (buf @ cs) (ord CHR '':''))
        else buf @ cs)
       (if ord CHR '':'' \<in> set (buf @ cs) then snd (split_once (buf @ cs) (ord CHR '':''))
        else p)
       (set_userinfo
          (percent_decode L
             (if ord CHR '':'' \<in> set (buf @ cs)
              then fst (split_once (buf @ cs) (ord CHR '':'')) else buf @ cs))
          (percent_decode L
             (if ord CHR '':'' \<in> set (buf @ cs)
              then snd (split_once (buf @ cs) (ord CHR '':'')) else p))
          b)" for buf
    using assms
  proof (induction cs arbitrary: buf)
    case Nil
    show ?case by simp
  next
    case (Cons c cs)
    from Cons.prems have c: "c \<noteq> ord CHR ''@''" and cs: "ord CHR ''@'' \<notin> set cs" by auto
    from Cons.IH [OF cs, of "buf @ [c]"] c show ?case by simp
  qed
  from this [of "[]"] show ?thesis by simp
qed

lemma split_once_colon:
  "ord CHR '':'' \<notin> set u \<Longrightarrow> split_once (u @ ord CHR '':'' # p) (ord CHR '':'') = (u, p)"
  by (simp add: split_once_def takeWhile_until dropWhile_until)

lemma authority_chars_userinfo:
  assumes u1: "username r = [] \<longrightarrow> password r = []"
    and pd: "percent_decode L (username r) = username r"
            "percent_decode L (password r) = password r"
    and at: "ord CHR ''@'' \<notin> set (username r)" "ord CHR ''@'' \<notin> set (password r)"
            "ord CHR ''@'' \<notin> set HP"
    and co: "ord CHR '':'' \<notin> set (username r)"
  shows "authority_chars L (userinfo_text r @ HP) [] [] [] b =
     (HP, if username r = [] then b else set_userinfo (username r) (password r) b)"
proof (cases "username r = []")
  case True
  then show ?thesis
    by (simp add: userinfo_text_def authority_chars_no_at [OF at(3)])
next
  case False
  define cs where "cs = username r @ (if password r \<noteq> [] then ord CHR '':'' # password r else [])"
  have ui: "userinfo_text r @ HP = cs @ ord CHR ''@'' # HP"
    using False by (simp add: userinfo_text_def cs_def)
  have nat: "ord CHR ''@'' \<notin> set cs" using at(1,2) by (simp add: cs_def)
  have sp: "(if ord CHR '':'' \<in> set cs then fst (split_once cs (ord CHR '':'')) else cs) = username r
      \<and> (if ord CHR '':'' \<in> set cs then snd (split_once cs (ord CHR '':'')) else []) = password r"
  proof (cases "password r = []")
    case True
    then show ?thesis using co by (simp add: cs_def)
  next
    case False
    then have c: "cs = username r @ ord CHR '':'' # password r" by (simp add: cs_def)
    show ?thesis unfolding c using split_once_colon [OF co, of "password r"] by simp
  qed
  from sp have s1: "(if ord CHR '':'' \<in> set cs then fst (split_once cs (ord CHR '':'')) else cs) = username r"
    and s2: "(if ord CHR '':'' \<in> set cs then snd (split_once cs (ord CHR '':'')) else []) = password r"
    by blast+
  show ?thesis
    unfolding ui authority_chars_at [OF nat] s1 s2 pd authority_chars_no_at [OF at(3)]
    using False by simp
qed

lemma split_last_colon:
  "ord CHR '':'' \<notin> set p \<Longrightarrow> split_last (h @ ord CHR '':'' # p) (ord CHR '':'') = (h, p)"
proof -
  assume n: "ord CHR '':'' \<notin> set p"
  then have n': "ord CHR '':'' \<notin> set (rev p)" by simp
  have r: "rev (h @ ord CHR '':'' # p) = rev p @ ord CHR '':'' # rev h" by simp
  show ?thesis
    unfolding split_last_def r takeWhile_until [OF n'] dropWhile_until [OF n']
    by simp
qed

lemma authority_host_port_text:
  assumes br: "\<not> (ord CHR ''['' \<in> set (host r) \<and> ord CHR '']'' \<in> set (host r))"
    and co: "port r = [] \<longrightarrow> ord CHR '':'' \<notin> set (host r)"
    and pd: "list_all ascii_digit (port r)"
  shows "authority_host_port (hostport_text r) = (host r, port r)"
proof -
  from pd have np: "ord CHR ''['' \<notin> set (port r)" "ord CHR '']'' \<notin> set (port r)"
    "ord CHR '':'' \<notin> set (port r)"
    by (auto simp: list_all_iff ascii_digit_def)
  show ?thesis
  proof (cases "port r = []")
    case True
    with br co show ?thesis
      by (auto simp: hostport_text_def authority_host_port_def)
  next
    case False
    then have hp: "hostport_text r = host r @ ord CHR '':'' # port r"
      by (simp add: hostport_text_def)
    have nb: "\<not> (ord CHR ''['' \<in> set (host r @ ord CHR '':'' # port r)
        \<and> ord CHR '']'' \<in> set (host r @ ord CHR '':'' # port r))"
      using br np by auto
    have c: "ord CHR '':'' \<in> set (host r @ ord CHR '':'' # port r)" by simp
    have "authority_host_port (host r @ ord CHR '':'' # port r) =
        split_last (host r @ ord CHR '':'' # port r) (ord CHR '':'')"
      unfolding authority_host_port_def by (simp only: nb c if_False if_True)
    then show ?thesis
      unfolding hp by (simp only: split_last_colon [OF np(3)])
  qed
qed

lemma query_fragment_text_stop:
  "query_fragment_text r = [] \<or> path_stop (hd (query_fragment_text r))"
  by (simp add: query_fragment_text_def path_stop_def)

lemma query_fragment_text_read:
  assumes "ord CHR ''#'' \<notin> set (query r)" and "b_query b = []" and "b_fragment b = []"
  shows "query_fragment (query_fragment_text r) b =
     b\<lparr>b_query := query r, b_fragment := fragment r\<rparr>"
proof (cases "query r = []")
  case True
  with assms(2,3) show ?thesis
    by (cases "fragment r = []")
       (simp_all add: query_fragment_text_def query_fragment_def set_fragment_def)
next
  case False
  note q = takeWhile_all_then_stop [of "query r" "\<lambda>c. c \<noteq> ord CHR ''#''"]
  from assms(1) have all: "\<forall>x\<in>set (query r). x \<noteq> ord CHR ''#''" by auto
  show ?thesis
  proof (cases "fragment r = []")
    case True
    have t: "takeWhile (\<lambda>c. c \<noteq> ord CHR ''#'') (query r) = query r"
      and d: "dropWhile (\<lambda>c. c \<noteq> ord CHR ''#'') (query r) = []"
      using q [of "[]"] all by simp_all
    have qt: "query_fragment_text r = ord CHR ''?'' # query r"
      using False True by (simp add: query_fragment_text_def)
    have "query_fragment (ord CHR ''?'' # query r) b = set_query (query r) b"
      apply (simp only: query_fragment_def list.case)
      apply (simp only: t d)
      apply simp
      done
    with True assms(3) show ?thesis
      unfolding qt by (simp add: set_query_def)
  next
    case fr: False
    have t: "takeWhile (\<lambda>c. c \<noteq> ord CHR ''#'') (query r @ ord CHR ''#'' # fragment r) = query r"
      and d: "dropWhile (\<lambda>c. c \<noteq> ord CHR ''#'') (query r @ ord CHR ''#'' # fragment r)
               = ord CHR ''#'' # fragment r"
      using q [of "ord CHR ''#'' # fragment r"] all by simp_all
    have qt: "query_fragment_text r = ord CHR ''?'' # query r @ ord CHR ''#'' # fragment r"
      using False fr by (simp add: query_fragment_text_def)
    have "query_fragment (ord CHR ''?'' # query r @ ord CHR ''#'' # fragment r) b =
        set_fragment (fragment r) (set_query (query r) b)"
      apply (simp only: query_fragment_def list.case)
      apply (simp only: t d)
      apply simp
      done
    then show ?thesis
      unfolding qt by (simp add: set_query_def set_fragment_def)
  qed
qed

lemma digit_facts:
  "ascii_digit c \<Longrightarrow> c \<noteq> ord CHR ''@'' \<and> \<not> authority_stop c \<and> c \<noteq> ord CHR '':''"
  by (auto simp: ascii_digit_def authority_stop_def)

lemma reparse_hier_record:
  assumes sch: "scheme r \<noteq> []" "list_all is_ascii_alpha (scheme r)"
      "map ascii_lower (scheme r) = scheme r"
    and gh: "get_handler L (scheme r) = HierarchicalHandler"
    and op: "opaque r = []"
    and u1: "username r = [] \<longrightarrow> password r = []"
    and pd: "percent_decode L (username r) = username r"
      "percent_decode L (password r) = password r"
    and ui: "\<forall>c\<in>set (username r). c \<noteq> ord CHR ''@'' \<and> c \<noteq> ord CHR '':'' \<and> \<not> authority_stop c"
      "\<forall>c\<in>set (password r). c \<noteq> ord CHR ''@'' \<and> \<not> authority_stop c"
    and ho: "\<forall>c\<in>set (host r). c \<noteq> ord CHR ''@'' \<and> \<not> authority_stop c"
      "\<not> (ord CHR ''['' \<in> set (host r) \<and> ord CHR '']'' \<in> set (host r))"
      "port r = [] \<longrightarrow> ord CHR '':'' \<notin> set (host r)"
      "normalize_host L (host r) = Inr (host r)"
      "py_lower L (host r) = host r"
    and po: "list_all ascii_digit (port r)"
      "normalize_port L (port r) (scheme r) = Inr (port r)"
    and au: "userinfo_text r @ hostport_text r \<noteq> []"
      "\<not> is_separator (hd (userinfo_text r @ hostport_text r))"
    and pa: "path r \<noteq> []" "hd (path r) = ord CHR ''/''" "\<forall>c\<in>set (path r). \<not> path_stop c"
      "normalize_path (path r) (scheme r) = path r"
    and qu: "ord CHR ''#'' \<notin> set (query r)"
    and ws: "\<not> py_isspace (last (to_string r))"
  shows "parse L (to_string r) = Inr r"
proof -
  define A where "A = userinfo_text r @ hostport_text r"
  define Q where "Q = query_fragment_text r"
  define t where "t = scheme r @ ord CHR '':'' # ([ord CHR ''/'', ord CHR ''/''] @ A @ path r @ Q)"
  have ts: "to_string r = t"
    using op pa(1) by (simp add: to_string_hier t_def A_def Q_def)
  from sch(1,2) have "is_ascii_alpha (hd (scheme r))"
    by (cases "scheme r") (simp_all add: list_all_iff)
  then have hsp: "\<not> py_isspace (hd t)"
    using sch(1) by (simp add: t_def alpha_not_space)
  have lsp: "\<not> py_isspace (last t)" using ws unfolding ts .
  have st: "py_strip t = t"
    by (rule py_strip_id [OF _ hsp lsp]) (simp add: t_def)
  from po(1) have pdig: "\<forall>c\<in>set (port r). c \<noteq> ord CHR ''@'' \<and> \<not> authority_stop c"
    by (auto simp: list_all_iff dest: digit_facts)
  have h_at: "ord CHR ''@'' \<notin> set (host r)" using ho(1) by blast
  have p_at: "ord CHR ''@'' \<notin> set (port r)" using pdig by blast
  have hpat: "ord CHR ''@'' \<notin> set (hostport_text r)"
    unfolding hostport_text_def using h_at p_at by simp
  have u_ns: "\<forall>c\<in>set (username r). \<not> authority_stop c" using ui(1) by blast
  have w_ns: "\<forall>c\<in>set (password r). \<not> authority_stop c" using ui(2) by blast
  have h_ns: "\<forall>c\<in>set (host r). \<not> authority_stop c" using ho(1) by blast
  have p_ns: "\<forall>c\<in>set (port r). \<not> authority_stop c" using pdig by blast
  have c_ns: "\<not> authority_stop (ord CHR '':'')" "\<not> authority_stop (ord CHR ''@'')"
    by (simp_all add: authority_stop_def)
  have U_ns: "\<forall>c\<in>set (userinfo_text r). \<not> authority_stop c"
    unfolding userinfo_text_def using u_ns w_ns c_ns by (cases "username r = []"; cases "password r = []"; simp; blast)
  have H_ns: "\<forall>c\<in>set (hostport_text r). \<not> authority_stop c"
    unfolding hostport_text_def using h_ns p_ns c_ns by (cases "port r = []"; simp; blast)
  have Astop: "\<forall>c\<in>set A. \<not> authority_stop c"
    unfolding A_def using U_ns H_ns by (simp add: ball_Un)
  note parts = hier_parts [OF sch(1,2) au(1) [folded A_def] au(2) [folded A_def] Astop
      pa(1,2,3) query_fragment_text_stop [of r, folded Q_def] st [unfolded t_def],
      folded t_def]
  have us: "uri_scheme t = scheme r" unfolding parts(2) by (rule sch(3))
  have ght: "get_handler L (uri_scheme t) = HierarchicalHandler" unfolding us by (rule gh)
  have at1: "ord CHR ''@'' \<notin> set (username r)" "ord CHR ''@'' \<notin> set (password r)"
    "ord CHR '':'' \<notin> set (username r)"
    using ui by auto
  define b1 where "b1 = (if username r = [] then set_scheme (scheme r) new_builder
      else set_userinfo (username r) (password r) (set_scheme (scheme r) new_builder))"
  have as: "authority_state L t = (hostport_text r, b1)"
    unfolding authority_state_def parts(4) us A_def b1_def
    by (rule authority_chars_userinfo [OF u1 pd at1(1,2) hpat at1(3)])
  have raw: "raw_host_port L t = (host r, port r)"
    unfolding raw_host_port_def as fst_conv
    by (rule authority_host_port_text [OF ho(2,3) po(1)])
  have b1f: "b_query b1 = []" "b_fragment b1 = []" "b_opaque b1 = []"
    "b_scheme b1 = scheme r" "b_username b1 = username r" "b_password b1 = password r"
    using u1 by (auto simp: b1_def set_scheme_def set_userinfo_def new_builder_def)
  have hr: "hier_result L t (host r) (port r) = r"
  proof -
    have qf: "query_fragment Q
        (set_path (path r) (set_host_port (host r) (port r) b1)) =
        (set_path (path r) (set_host_port (host r) (port r) b1))
          \<lparr>b_query := query r, b_fragment := fragment r\<rparr>"
      unfolding Q_def
      by (rule query_fragment_text_read [OF qu])
         (simp_all add: set_path_def set_host_port_def b1f)
    have "hier_result L t (host r) (port r) =
        build (normalize L
          ((set_path (path r) (set_host_port (host r) (port r) b1))
             \<lparr>b_query := query r, b_fragment := fragment r\<rparr>) HierarchicalHandler)"
      unfolding hier_result_def parts(5) parts(6) us pa(4) as snd_conv qf ..
    also have "\<dots> = r"
      using sch(2,3) ho(5) op
      by (intro URIObject.equality)
         (simp_all add: build_def normalize_def Let_def set_path_def set_host_port_def b1f
            py_lower_ascii list_all_iff alpha_is_ascii)
    finally show ?thesis .
  qed
  have seps: "\<not> (length (separators t) < 2 \<and> ord CHR 0x5C \<notin> set (separators t))"
    unfolding parts(3) by simp
  have "parse L t = Inr (hier_result L t (host r) (port r))"
    unfolding parse_hier_eq [OF parts(1) ght] raw fst_conv snd_conv us
    using seps by (simp add: ho(4) po(2))
  then show ?thesis unfolding ts hr .
qed

section \<open>Normalizing a normalized path\<close>

lemma py_split_single: "d \<notin> set x \<Longrightarrow> py_split d x = [x]"
  by (induction x) auto

lemma py_split_append: "d \<notin> set x \<Longrightarrow> py_split d (x @ d # rest) = x # py_split d rest"
  by (induction x) auto

lemma py_split_join:
  "segs \<noteq> [] \<Longrightarrow> \<forall>x\<in>set segs. d \<notin> set x \<Longrightarrow> py_split d (py_join d segs) = segs"
proof (induction segs)
  case Nil
  then show ?case by simp
next
  case (Cons x xs)
  from Cons.prems have x: "d \<notin> set x" by simp
  show ?case
  proof (cases xs)
    case Nil
    with x show ?thesis by (simp add: py_split_single)
  next
    case (Cons y ys)
    with Cons.prems Cons.IH have "py_split d (py_join d (y # ys)) = y # ys" by simp
    with x Cons show ?thesis by (simp add: py_split_append)
  qed
qed

lemma py_split_subset: "seg \<in> set (py_split d s) \<Longrightarrow> set seg \<subseteq> set s"
proof (induction s arbitrary: seg)
  case Nil
  then show ?case by simp
next
  case (Cons c cs)
  obtain x xs where sp: "py_split d cs = x # xs"
    using py_split_nonempty [of d cs] by (cases "py_split d cs") auto
  have x: "set x \<subseteq> set cs" and xs: "\<And>y. y \<in> set xs \<Longrightarrow> set y \<subseteq> set cs"
    using Cons.IH by (simp_all add: sp)
  from Cons.prems x xs show ?case
    by (auto simp: sp split: if_splits)
qed

lemma set_py_join: "c \<in> set (py_join d segs) \<Longrightarrow> c = d \<or> (\<exists>seg\<in>set segs. c \<in> set seg)"
  by (induction d segs rule: py_join.induct) auto

lemma path_segments_clean:
  "\<forall>x\<in>set xs. x \<noteq> [] \<and> x \<noteq> lit ''.'' \<and> x \<noteq> lit ''..'' \<Longrightarrow> path_segments xs acc = acc @ xs"
  by (induction xs arbitrary: acc) auto

lemma path_segments_kept:
  "x \<in> set (path_segments xs acc) \<Longrightarrow>
     x \<in> set acc \<or> (x \<in> set xs \<and> x \<noteq> [] \<and> x \<noteq> lit ''.'' \<and> x \<noteq> lit ''..'')"
proof (induction xs arbitrary: acc)
  case Nil
  then show ?case by simp
next
  case (Cons seg rest)
  show ?case
  proof (cases "seg = [] \<or> seg = lit ''.''")
    case True
    with Cons.prems have "x \<in> set (path_segments rest acc)" by auto
    from Cons.IH [OF this] show ?thesis by auto
  next
    case False
    show ?thesis
    proof (cases "seg = lit ''..''")
      case True
      show ?thesis
      proof (cases "acc = []")
        case e: True
        with True False Cons.prems have "x \<in> set (path_segments rest [])" by simp
        from Cons.IH [OF this] e show ?thesis by auto
      next
        case ne: False
        with True False Cons.prems have "x \<in> set (path_segments rest (butlast acc))" by simp
        from Cons.IH [OF this] show ?thesis by (auto dest: in_set_butlastD)
      qed
    next
      case ndd: False
      with False Cons.prems have "x \<in> set (path_segments rest (acc @ [seg]))" by simp
      from Cons.IH [OF this] False ndd show ?thesis by auto
    qed
  qed
qed

lemma normalize_path_idem: "normalize_path (normalize_path p sch) sch = normalize_path p sch"
proof -
  define p' where "p' = (if sch \<in> set network_schemes \<and> \<not> py_startswith p (ord CHR ''/'')
      then ord CHR ''/'' # p else p)"
  define segs where "segs = path_segments (py_split (ord CHR ''/'') p') []"
  define J where "J = py_join (ord CHR ''/'') segs"
  have n: "normalize_path p sch = ord CHR ''/'' # J"
    by (simp add: normalize_path_def Let_def p'_def segs_def J_def)
  have clean: "x \<noteq> [] \<and> x \<noteq> lit ''.'' \<and> x \<noteq> lit ''..'' \<and> ord CHR ''/'' \<notin> set x"
    if "x \<in> set segs" for x
  proof -
    from that path_segments_kept [of x "py_split (ord CHR ''/'') p'" "[]"]
    have k: "x \<in> set (py_split (ord CHR ''/'') p')" "x \<noteq> []" "x \<noteq> lit ''.''" "x \<noteq> lit ''..''"
      unfolding segs_def by auto
    from py_split_no_sep [OF k(1)] k show ?thesis by blast
  qed
  have sp: "path_segments ([] # py_split (ord CHR ''/'') J) [] = segs"
  proof (cases "segs = []")
    case True
    then show ?thesis by (simp add: J_def)
  next
    case False
    from clean have "\<forall>x\<in>set segs. ord CHR ''/'' \<notin> set x" by blast
    from py_split_join [OF False this] have "py_split (ord CHR ''/'') J = segs"
      unfolding J_def .
    moreover from clean have "\<forall>x\<in>set segs. x \<noteq> [] \<and> x \<noteq> lit ''.'' \<and> x \<noteq> lit ''..''"
      by blast
    ultimately show ?thesis by (simp add: path_segments_clean)
  qed
  have "normalize_path (ord CHR ''/'' # J) sch =
      ord CHR ''/'' # py_join (ord CHR ''/'') (path_segments ([] # py_split (ord CHR ''/'') J) [])"
    by (simp add: normalize_path_def Let_def py_startswith_def)
  then have "normalize_path (ord CHR ''/'' # J) sch = ord CHR ''/'' # py_join (ord CHR ''/'') segs"
    unfolding sp .
  then show ?thesis unfolding n J_def .
qed

lemma normalize_path_chars:
  assumes "c \<in> set (normalize_path p sch)"
  shows "c = ord CHR ''/'' \<or> c \<in> set p"
proof -
  define p' where "p' = (if sch \<in> set network_schemes \<and> \<not> py_startswith p (ord CHR ''/'')
      then ord CHR ''/'' # p else p)"
  have n: "normalize_path p sch =
      ord CHR ''/'' # py_join (ord CHR ''/'') (path_segments (py_split (ord CHR ''/'') p') [])"
    by (simp add: normalize_path_def Let_def p'_def)
  show ?thesis
  proof (cases "c = ord CHR ''/''")
    case True
    then show ?thesis by simp
  next
    case False
    with assms have "c \<in> set (py_join (ord CHR ''/'') (path_segments (py_split (ord CHR ''/'') p') []))"
      unfolding n by simp
    from set_py_join [OF this] False obtain seg where
      seg: "seg \<in> set (path_segments (py_split (ord CHR ''/'') p') [])" and c: "c \<in> set seg"
      by blast
    from path_segments_kept [OF seg] have "seg \<in> set (py_split (ord CHR ''/'') p')" by simp
    from py_split_subset [OF this] c have "c \<in> set p'" by blast
    with False show ?thesis by (auto simp: p'_def split: if_splits)
  qed
qed

section \<open>What a hierarchical result always satisfies\<close>

lemma query_fragment_query:
  "ord CHR ''#'' \<notin> set (b_query b) \<Longrightarrow> ord CHR ''#'' \<notin> set (b_query (query_fragment rest b))"
  by (auto simp: query_fragment_def set_query_def set_fragment_def split: list.splits
      dest: set_takeWhileD)

lemma hier_result_query: "ord CHR ''#'' \<notin> set (query (hier_result L s h p))"
proof -
  have "b_query (set_path x (set_host_port h p (snd (authority_state L s)))) = []" for x
    by (simp add: set_path_def set_host_port_def authority_state_def authority_chars_frame
        set_scheme_def new_builder_def)
  then have "ord CHR ''#'' \<notin> set (b_query (query_fragment rest
      (set_path x (set_host_port h p (snd (authority_state L s))))))" for rest x
    by (intro query_fragment_query) simp
  then show ?thesis
    by (simp add: hier_result_def build_def normalize_def Let_def)
qed

lemma normalize_port_py_str:
  assumes "length (py_str n) \<le> 4300" and "default_port sch \<noteq> Some n"
  shows "normalize_port L (py_str n) sch = Inr (py_str n)"
proof -
  have d: "list_all ascii_digit (py_str n)" by (rule py_str_digits)
  then have "list_all (py_isdigit L) (py_str n)"
    by (auto simp: list_all_iff py_isdigit_def ascii_digit_def is_ascii_def)
  then have ds: "is_digit_string L (py_str n)" by (simp add: is_digit_string_def)
  have "py_int L (py_str n) = Inr (decimal_value (py_str n))"
    using d assms(1) by (simp add: py_int_def decimal_value_def)
  then have i: "py_int L (py_str n) = Inr n" by (simp add: decimal_value_py_str)
  show ?thesis using ds assms(2) by (simp add: normalize_port_def i)
qed

lemma authority_text_hd:
  assumes "username r @ host r @ port r \<noteq> []"
    and "\<not> is_separator (hd (username r @ host r @ port r))"
  shows "userinfo_text r @ hostport_text r \<noteq> []"
    and "\<not> is_separator (hd (userinfo_text r @ hostport_text r))"
  using assms
  by (cases "username r"; cases "host r"; cases "port r";
      simp add: userinfo_text_def hostport_text_def is_separator_def)+

lemma reparse_hier:
  assumes p: "parse L s = Inr r"
    and gh: "get_handler L (scheme r) = HierarchicalHandler"
    and u1: "username r = [] \<longrightarrow> password r = []"
    and pd: "percent_decode L (username r) = username r"
      "percent_decode L (password r) = password r"
    and ui: "\<forall>c\<in>set (username r). c \<noteq> ord CHR ''@'' \<and> c \<noteq> ord CHR '':'' \<and> \<not> authority_stop c"
      "\<forall>c\<in>set (password r). c \<noteq> ord CHR ''@'' \<and> \<not> authority_stop c"
    and ho: "\<forall>c\<in>set (host r). c \<noteq> ord CHR ''@'' \<and> \<not> authority_stop c"
      "\<not> (ord CHR ''['' \<in> set (host r) \<and> ord CHR '']'' \<in> set (host r))"
      "port r = [] \<longrightarrow> ord CHR '':'' \<notin> set (host r)"
      "py_strip_char (ord CHR ''.'') (py_strip (host r)) = host r"
    and pl: "length (port r) \<le> 4300"
    and au: "username r @ host r @ port r \<noteq> []"
      "\<not> is_separator (hd (username r @ host r @ port r))"
    and ws: "\<not> py_isspace (last (to_string r))"
  shows "parse L (to_string r) = Inr r"
proof -
  note f = parse_hier_fields [OF p gh]
  note sf = parse_scheme_field [OF p]
  note sp = uri_scheme_props [OF sf(1), folded sf(2)]
  from parse_hier_host [OF p gh] obtain x where
    x: "normalize_host L (fst (raw_host_port L s)) = Inr x" and hx: "host r = map ascii_lower x"
    by blast
  have asc: "list_all is_ascii (host r)"
    unfolding hx by (rule map_ascii_lower_ascii [OF normalize_host_ascii [OF x]])
  have low: "py_lower L (host r) = host r"
    unfolding py_lower_ascii [OF asc] by (simp add: hx)
  have nna: "\<not> contains_non_ascii (host r)" using asc by (simp add: ascii_no_non_ascii)
  have nh: "normalize_host L (host r) = Inr (host r)"
    unfolding normalize_host_eq ho(4) low using nna by simp
  from normalize_port_cases [OF f(4)]
  have pc: "port r = [] \<or> (\<exists>n. port r = py_str n \<and> default_port (uri_scheme s) \<noteq> Some n)" .
  have pdig: "list_all ascii_digit (port r)"
    using pc by (auto simp: py_str_digits)
  have np: "normalize_port L (port r) (scheme r) = Inr (port r)"
  proof (cases "port r = []")
    case True
    then show ?thesis by (simp add: normalize_port_def)
  next
    case False
    with pc obtain n where n: "port r = py_str n" "default_port (uri_scheme s) \<noteq> Some n"
      by blast
    from pl have "length (py_str n) \<le> 4300" unfolding n(1) .
    from normalize_port_py_str [OF this n(2), of L] show ?thesis
      unfolding n(1) sf(2) .
  qed
  have pne: "path r \<noteq> []" and phd: "hd (path r) = ord CHR ''/''"
    using normalize_path_starts [of "path_text (py_strip s) (body_index s)" "uri_scheme s"]
    unfolding f(5) by (auto simp: py_startswith_def split: list.splits)
  have pst: "\<forall>c\<in>set (path r). \<not> path_stop c"
  proof
    fix c assume "c \<in> set (path r)"
    from normalize_path_chars [OF this [unfolded f(5)]]
    show "\<not> path_stop c"
      by (auto simp: path_stop_def path_text_def dest: set_takeWhileD)
  qed
  have pid: "normalize_path (path r) (scheme r) = path r"
    unfolding f(5) sf(2) by (rule normalize_path_idem)
  have qu: "ord CHR ''#'' \<notin> set (query r)"
  proof -
    from parse_Inr_cases [OF p] f(2) obtain h q where r: "r = hier_result L s h q" by auto
    show ?thesis unfolding r by (rule hier_result_query)
  qed
  note at = authority_text_hd [OF au]
  show ?thesis
    by (rule reparse_hier_record [OF sp gh f(8) u1 pd ui ho(1,2,3) nh low pdig np at
          pne phd pst pid qu ws])
qed

text \<open>A result without user name, host and port, whose path is \<open>/\<close>.\<close>

lemma reparse_hier_empty:
  assumes p: "parse L s = Inr r"
    and gh: "get_handler L (scheme r) = HierarchicalHandler"
    and e: "username r = []" "password r = []" "host r = []" "port r = []"
    and pa: "path r = lit ''/''"
    and ws: "\<not> py_isspace (last (to_string r))"
  shows "parse L (to_string r) = Inr r"
proof -
  note f = parse_hier_fields [OF p gh]
  note sf = parse_scheme_field [OF p]
  note sch = uri_scheme_props [OF sf(1), folded sf(2)]
  have qu: "ord CHR ''#'' \<notin> set (query r)"
  proof -
    from parse_Inr_cases [OF p] f(2) obtain h q where r: "r = hier_result L s h q" by auto
    show ?thesis unfolding r by (rule hier_result_query)
  qed
  define Q where "Q = query_fragment_text r"
  define t where "t = scheme r @ ord CHR '':'' # (lit ''///'' @ Q)"
  have ts: "to_string r = t"
    using f(8) e pa
    by (simp add: to_string_hier t_def Q_def userinfo_text_def hostport_text_def)
  from sch(1,2) have "is_ascii_alpha (hd (scheme r))"
    by (cases "scheme r") (simp_all add: list_all_iff)
  then have hsp: "\<not> py_isspace (hd t)"
    using sch(1) by (simp add: t_def alpha_not_space)
  have lsp: "\<not> py_isspace (last t)" using ws unfolding ts .
  have st: "py_strip t = t"
    by (rule py_strip_id [OF _ hsp lsp]) (simp add: t_def)
  note ser = scheme_text_of_serialization [OF sch(1,2) st [unfolded t_def], folded t_def]
  have us: "uri_scheme t = scheme r" unfolding uri_scheme_def ser(1) by (rule sch(3))
  have ght: "get_handler L (uri_scheme t) = HierarchicalHandler" unfolding us by (rule gh)
  have Qs: "Q = [] \<or> path_stop (hd Q)"
    unfolding Q_def by (rule query_fragment_text_stop)
  then have nsep: "Q = [] \<or> \<not> is_separator (hd Q)"
    by (auto simp: path_stop_def is_separator_def)
  have all: "\<forall>x\<in>set (lit ''///''). is_separator x" by (simp add: is_separator_def)
  note s1 = takeWhile_all_then_stop [OF all nsep]
  have seps: "separators t = lit ''///''"
    unfolding separators_def ser(4) by (rule s1(1))
  have as: "after_separators (py_strip t) (body_index t) = Q"
    unfolding after_separators_def ser(4) by (rule s1(2))
  from Qs have astop: "Q = [] \<or> \<not> \<not> authority_stop (hd Q)"
    by (auto simp: path_stop_def authority_stop_def)
  have at: "authority_text (py_strip t) (body_index t) = []"
    unfolding authority_text_def as using astop by (cases Q) auto
  have aa: "after_authority (py_strip t) (body_index t) = Q"
    unfolding after_authority_def as using astop by (cases Q) auto
  have pt: "path_text (py_strip t) (body_index t) = []"
    unfolding path_text_def aa using Qs by (cases Q) auto
  have ap: "after_path (py_strip t) (body_index t) = Q"
    unfolding after_path_def aa using Qs by (cases Q) auto
  have ast: "authority_state L t = ([], set_scheme (scheme r) new_builder)"
    unfolding authority_state_def at us by simp
  have raw: "raw_host_port L t = ([], [])"
    unfolding raw_host_port_def ast by (simp add: authority_host_port_def)
  have nh: "normalize_host L [] = Inr []"
    by (simp add: normalize_host_eq py_strip_def py_strip_char_def py_lower_def
        contains_non_ascii_def)
  have np: "normalize_port L [] (scheme r) = Inr []" by (simp add: normalize_port_def)
  have hr: "hier_result L t [] [] = r"
  proof -
    have qf: "query_fragment Q
        (set_path (lit ''/'') (set_host_port [] [] (set_scheme (scheme r) new_builder))) =
        (set_path (lit ''/'') (set_host_port [] [] (set_scheme (scheme r) new_builder)))
          \<lparr>b_query := query r, b_fragment := fragment r\<rparr>"
      unfolding Q_def
      by (rule query_fragment_text_read [OF qu])
         (simp_all add: set_path_def set_host_port_def set_scheme_def new_builder_def)
    have "hier_result L t [] [] =
        build (normalize L
          ((set_path (lit ''/'') (set_host_port [] [] (set_scheme (scheme r) new_builder)))
             \<lparr>b_query := query r, b_fragment := fragment r\<rparr>) HierarchicalHandler)"
      unfolding hier_result_def pt ap us normalize_path_empty ast snd_conv qf ..
    also have "\<dots> = r"
      using sch(2,3) e pa f(8)
      by (intro URIObject.equality)
         (simp_all add: build_def normalize_def Let_def set_path_def set_host_port_def
            set_scheme_def new_builder_def py_lower_ascii list_all_iff alpha_is_ascii)
    finally show ?thesis .
  qed
  have sp: "\<not> (length (separators t) < 2 \<and> ord CHR 0x5C \<notin> set (separators t))"
    unfolding seps by simp
  have "parse L t = Inr (hier_result L t [] [])"
    unfolding parse_hier_eq [OF ser(2) ght] raw fst_conv snd_conv us
    using sp by (simp add: nh np)
  then show ?thesis unfolding ts hr .
qed

section \<open>Parsing the serialization of a result\<close>

text \<open>
  Claim C1, amended. Let \<open>parse\<close> succeed on \<open>s\<close> with the result \<open>r\<close>. Parsing
  \<open>to_string r\<close> succeeds and gives \<open>r\<close> again, field by field, when \<open>r\<close> is a result of
  the opaque handler and its opaque part is not empty, and when \<open>r\<close> is a result of the
  hierarchical handler such that

    \<^item> the password is empty if the user name is;
    \<^item> percent-decoding leaves user name and password as they are, and neither contains
      \<open>@\<close>, \<open>/\<close>, \<open>?\<close> or \<open>#\<close>, nor the user name a colon;
    \<^item> the host contains none of \<open>@\<close>, \<open>/\<close>, \<open>?\<close>, \<open>#\<close>, not both brackets, no colon
      when the port is empty, and stripping white space and dots leaves it as it is;
    \<^item> the port has at most 4300 digits, the length up to which \<open>int\<close> is written out;
    \<^item> the path is \<open>/\<close> if user name, host and port are all empty, and otherwise the
      first character of the three is neither \<open>/\<close> nor a backslash;
    \<^item> the serialization does not end in white space.

  Scheme, host case, port, path and query of a result need no condition: the parser leaves
  them in a form that it reads back unchanged.
\<close>

theorem reparse_serialization:
  assumes "parse L s = Inr r"
    and "get_handler L (scheme r) = OpaqueHandler \<longrightarrow> opaque r \<noteq> []"
    and "get_handler L (scheme r) = HierarchicalHandler \<longrightarrow>
         (username r = [] \<longrightarrow> password r = [])
       \<and> percent_decode L (username r) = username r
       \<and> percent_decode L (password r) = password r
       \<and> (\<forall>c\<in>set (username r). c \<noteq> ord CHR ''@'' \<and> c \<noteq> ord CHR '':'' \<and> \<not> authority_stop c)
       \<and> (\<forall>c\<in>set (password r). c \<noteq> ord CHR ''@'' \<and> \<not> authority_stop c)
       \<and> (\<forall>c\<in>set (host r). c \<noteq> ord CHR ''@'' \<and> \<not> authority_stop c)
       \<and> \<not> (ord CHR ''['' \<in> set (host r) \<and> ord CHR '']'' \<in> set (host r))
       \<and> (port r = [] \<longrightarrow> ord CHR '':'' \<notin> set (host r))
       \<and> py_strip_char (ord CHR ''.'') (py_strip (host r)) = host r
       \<and> length (port r) \<le> 4300
       \<and> (username r @ host r @ port r = [] \<longrightarrow> path r = lit ''/'')
       \<and> (username r @ host r @ port r \<noteq> [] \<longrightarrow>
            \<not> is_separator (hd (username r @ host r @ port r)))
       \<and> \<not> py_isspace (last (to_string r))"
  shows "parse L (to_string r) = Inr r"
proof (cases "get_handler L (scheme r)")
  case OpaqueHandler
  with assms(2) have "opaque r \<noteq> []" by simp
  from reparse_opaque [OF assms(1) OpaqueHandler this] show ?thesis .
next
  case HierarchicalHandler
  with assms(3) have
    h: "username r = [] \<longrightarrow> password r = []"
      "percent_decode L (username r) = username r"
      "percent_decode L (password r) = password r"
      "\<forall>c\<in>set (username r). c \<noteq> ord CHR ''@'' \<and> c \<noteq> ord CHR '':'' \<and> \<not> authority_stop c"
      "\<forall>c\<in>set (password r). c \<noteq> ord CHR ''@'' \<and> \<not> authority_stop c"
      "\<forall>c\<in>set (host r). c \<noteq> ord CHR ''@'' \<and> \<not> authority_stop c"
      "\<not> (ord CHR ''['' \<in> set (host r) \<and> ord CHR '']'' \<in> set (host r))"
      "port r = [] \<longrightarrow> ord CHR '':'' \<notin> set (host r)"
      "py_strip_char (ord CHR ''.'') (py_strip (host r)) = host r"
      "length (port r) \<le> 4300"
      "username r @ host r @ port r = [] \<longrightarrow> path r = lit ''/''"
      "username r @ host r @ port r \<noteq> [] \<longrightarrow>
         \<not> is_separator (hd (username r @ host r @ port r))"
      "\<not> py_isspace (last (to_string r))"
    by blast+
  show ?thesis
  proof (cases "username r @ host r @ port r = []")
    case True
    then have e: "username r = []" "host r = []" "port r = []" by simp_all
    with h(1) have pw: "password r = []" by simp
    from h(11) True have pa: "path r = lit ''/''" by simp
    show ?thesis
      by (rule reparse_hier_empty [OF assms(1) HierarchicalHandler e(1) pw e(2,3) pa h(13)])
  next
    case False
    with h(12) have "\<not> is_separator (hd (username r @ host r @ port r))" by simp
    from reparse_hier [OF assms(1) HierarchicalHandler h(1-10) False this h(13)]
    show ?thesis .
  qed
qed

theorem reparse_serialization_witness:
  "\<forall>L. parse L (lit ''HTTP://User:pw@Example.COM:8080/a/./b/../c?q=1#frag'') =
         Inr \<lparr>scheme = lit ''http'', username = lit ''User'', password = lit ''pw'',
              host = lit ''example.com'', port = lit ''8080'', path = lit ''/a/c'',
              query = lit ''q=1'', fragment = lit ''frag'', opaque = []\<rparr>
     \<and> to_string \<lparr>scheme = lit ''http'', username = lit ''User'', password = lit ''pw'',
              host = lit ''example.com'', port = lit ''8080'', path = lit ''/a/c'',
              query = lit ''q=1'', fragment = lit ''frag'', opaque = []\<rparr>
         = lit ''http://User:pw@example.com:8080/a/c?q=1#frag''
     \<and> parse L (lit ''http://User:pw@example.com:8080/a/c?q=1#frag'') =
         Inr \<lparr>scheme = lit ''http'', username = lit ''User'', password = lit ''pw'',
              host = lit ''example.com'', port = lit ''8080'', path = lit ''/a/c'',
              query = lit ''q=1'', fragment = lit ''frag'', opaque = []\<rparr>
     \<and> parse L (lit '' MailTo:Someone@Example.COM'') =
         Inr \<lparr>scheme = lit ''mailto'', username = [], password = [], host = [], port = [],
              path = [], query = [], fragment = [], opaque = lit ''Someone@Example.COM''\<rparr>
     \<and> parse L (lit ''mailto:Someone@Example.COM'') =
         Inr \<lparr>scheme = lit ''mailto'', username = [], password = [], host = [], port = [],
              path = [], query = [], fragment = [], opaque = lit ''Someone@Example.COM''\<rparr>
     \<and> parse L (lit ''http://?q'') =
         Inr \<lparr>scheme = lit ''http'', username = [], password = [], host = [], port = [],
              path = lit ''/'', query = lit ''q'', fragment = [], opaque = []\<rparr>
     \<and> parse L (lit ''http:///?q'') =
         Inr \<lparr>scheme = lit ''http'', username = [], password = [], host = [], port = [],
              path = lit ''/'', query = lit ''q'', fragment = [], opaque = []\<rparr>"
proof
  fix L :: pylib
  define s where "s = lit ''HTTP://User:pw@Example.COM:8080/a/./b/../c?q=1#frag''"
  define r0 where "r0 = \<lparr>scheme = lit ''http'', username = lit ''User'', password = lit ''pw'',
              host = lit ''example.com'', port = lit ''8080'', path = lit ''/a/c'',
              query = lit ''q=1'', fragment = lit ''frag'', opaque = []\<rparr>"
  define m where "m = lit '' MailTo:Someone@Example.COM''"
  define r1 where "r1 = \<lparr>scheme = lit ''mailto'', username = [], password = [], host = [],
              port = [], path = [], query = [], fragment = [],
              opaque = lit ''Someone@Example.COM''\<rparr>"
  have p: "parse L s = Inr r0"
    by (simp add: s_def r0_def parse_eval py_str.simps)
  have ts: "to_string r0 = lit ''http://User:pw@example.com:8080/a/c?q=1#frag''"
    by (simp add: r0_def to_string_def)
  have gh: "get_handler L (scheme r0) = HierarchicalHandler"
    by (simp add: r0_def get_handler_def py_lower_def is_ascii_def ascii_lower_def)
  have o: "get_handler L (scheme r0) = OpaqueHandler \<longrightarrow> opaque r0 \<noteq> []"
    unfolding gh by simp
  have h1: "username r0 = [] \<longrightarrow> password r0 = []" by (simp add: r0_def)
  have h2: "percent_decode L (username r0) = username r0"
    "percent_decode L (password r0) = password r0"
    by (simp_all add: r0_def percent_decode_def py_unquote_def)
  have h3: "\<forall>c\<in>set (username r0). c \<noteq> ord CHR ''@'' \<and> c \<noteq> ord CHR '':'' \<and> \<not> authority_stop c"
    "\<forall>c\<in>set (password r0). c \<noteq> ord CHR ''@'' \<and> \<not> authority_stop c"
    "\<forall>c\<in>set (host r0). c \<noteq> ord CHR ''@'' \<and> \<not> authority_stop c"
    by (simp_all add: r0_def authority_stop_def)
  have h4: "\<not> (ord CHR ''['' \<in> set (host r0) \<and> ord CHR '']'' \<in> set (host r0))"
    "port r0 = [] \<longrightarrow> ord CHR '':'' \<notin> set (host r0)"
    "py_strip_char (ord CHR ''.'') (py_strip (host r0)) = host r0"
    "length (port r0) \<le> 4300"
    "username r0 @ host r0 @ port r0 \<noteq> []"
    "\<not> is_separator (hd (username r0 @ host r0 @ port r0))"
    by (simp_all add: r0_def py_strip_char_def py_strip_def py_isspace_def is_separator_def)
  have h5: "\<not> py_isspace (last (to_string r0))"
    unfolding ts by (simp add: py_isspace_def)
  have h: "get_handler L (scheme r0) = HierarchicalHandler \<longrightarrow>
         (username r0 = [] \<longrightarrow> password r0 = [])
       \<and> percent_decode L (username r0) = username r0
       \<and> percent_decode L (password r0) = password r0
       \<and> (\<forall>c\<in>set (username r0). c \<noteq> ord CHR ''@'' \<and> c \<noteq> ord CHR '':'' \<and> \<not> authority_stop c)
       \<and> (\<forall>c\<in>set (password r0). c \<noteq> ord CHR ''@'' \<and> \<not> authority_stop c)
       \<and> (\<forall>c\<in>set (host r0). c \<noteq> ord CHR ''@'' \<and> \<not> authority_stop c)
       \<and> \<not> (ord CHR ''['' \<in> set (host r0) \<and> ord CHR '']'' \<in> set (host r0))
       \<and> (port r0 = [] \<longrightarrow> ord CHR '':'' \<notin> set (host r0))
       \<and> py_strip_char (ord CHR ''.'') (py_strip (host r0)) = host r0
       \<and> length (port r0) \<le> 4300
       \<and> (username r0 @ host r0 @ port r0 = [] \<longrightarrow> path r0 = lit ''/'')
       \<and> (username r0 @ host r0 @ port r0 \<noteq> [] \<longrightarrow>
            \<not> is_separator (hd (username r0 @ host r0 @ port r0)))
       \<and> \<not> py_isspace (last (to_string r0))"
    using h1 h2 h3 h4 h5 by blast
  have "parse L (to_string r0) = Inr r0"
    by (rule reparse_serialization [of L s r0, OF p o h])
  then have a: "parse L (lit ''http://User:pw@example.com:8080/a/c?q=1#frag'') = Inr r0"
    unfolding ts .
  have pm: "parse L m = Inr r1"
    by (simp add: m_def r1_def parse_eval)
  have gm: "get_handler L (scheme r1) = OpaqueHandler"
    by (simp add: r1_def get_handler_def py_lower_def is_ascii_def ascii_lower_def)
  have om: "get_handler L (scheme r1) = OpaqueHandler \<longrightarrow> opaque r1 \<noteq> []"
    by (simp add: r1_def)
  have hm: "get_handler L (scheme r1) = HierarchicalHandler \<longrightarrow>
         (username r1 = [] \<longrightarrow> password r1 = [])
       \<and> percent_decode L (username r1) = username r1
       \<and> percent_decode L (password r1) = password r1
       \<and> (\<forall>c\<in>set (username r1). c \<noteq> ord CHR ''@'' \<and> c \<noteq> ord CHR '':'' \<and> \<not> authority_stop c)
       \<and> (\<forall>c\<in>set (password r1). c \<noteq> ord CHR ''@'' \<and> \<not> authority_stop c)
       \<and> (\<forall>c\<in>set (host r1). c \<noteq> ord CHR ''@'' \<and> \<not> authority_stop c)
       \<and> \<not> (ord CHR ''['' \<in> set (host r1) \<and> ord CHR '']'' \<in> set (host r1))
       \<and> (port r1 = [] \<longrightarrow> ord CHR '':'' \<notin> set (host r1))
       \<and> py_strip_char (ord CHR ''.'') (py_strip (host r1)) = host r1
       \<and> length (port r1) \<le> 4300
       \<and> (username r1 @ host r1 @ port r1 = [] \<longrightarrow> path r1 = lit ''/'')
       \<and> (username r1 @ host r1 @ port r1 \<noteq> [] \<longrightarrow>
            \<not> is_separator (hd (username r1 @ host r1 @ port r1)))
       \<and> \<not> py_isspace (last (to_string r1))"
    unfolding gm by simp
  have tm: "to_string r1 = lit ''mailto:Someone@Example.COM''"
    by (simp add: r1_def to_string_def)
  have "parse L (to_string r1) = Inr r1"
    by (rule reparse_serialization [of L m r1, OF pm om hm])
  then have b: "parse L (lit ''mailto:Someone@Example.COM'') = Inr r1"
    unfolding tm .
  define e where "e = lit ''http://?q''"
  define r2 where "r2 = \<lparr>scheme = lit ''http'', username = [], password = [], host = [], port = [],
              path = lit ''/'', query = lit ''q'', fragment = [], opaque = []\<rparr>"
  have pe: "parse L e = Inr r2"
    by (simp add: e_def r2_def parse_eval)
  have te: "to_string r2 = lit ''http:///?q''"
    by (simp add: r2_def to_string_def)
  have ge: "get_handler L (scheme r2) = HierarchicalHandler"
    by (simp add: r2_def get_handler_def py_lower_def is_ascii_def ascii_lower_def)
  have oe: "get_handler L (scheme r2) = OpaqueHandler \<longrightarrow> opaque r2 \<noteq> []"
    unfolding ge by simp
  have e1: "percent_decode L (username r2) = username r2"
    "percent_decode L (password r2) = password r2"
    by (simp_all add: r2_def percent_decode_def py_unquote_def)
  have e2: "username r2 = []" "password r2 = []" "host r2 = []" "port r2 = []"
    "path r2 = lit ''/''"
    by (simp_all add: r2_def)
  have e3: "py_strip_char (ord CHR ''.'') (py_strip (host r2)) = host r2"
    by (simp add: r2_def py_strip_char_def py_strip_def)
  have e4: "\<not> py_isspace (last (to_string r2))"
    unfolding te by (simp add: py_isspace_def)
  have he: "get_handler L (scheme r2) = HierarchicalHandler \<longrightarrow>
         (username r2 = [] \<longrightarrow> password r2 = [])
       \<and> percent_decode L (username r2) = username r2
       \<and> percent_decode L (password r2) = password r2
       \<and> (\<forall>c\<in>set (username r2). c \<noteq> ord CHR ''@'' \<and> c \<noteq> ord CHR '':'' \<and> \<not> authority_stop c)
       \<and> (\<forall>c\<in>set (password r2). c \<noteq> ord CHR ''@'' \<and> \<not> authority_stop c)
       \<and> (\<forall>c\<in>set (host r2). c \<noteq> ord CHR ''@'' \<and> \<not> authority_stop c)
       \<and> \<not> (ord CHR ''['' \<in> set (host r2) \<and> ord CHR '']'' \<in> set (host r2))
       \<and> (port r2 = [] \<longrightarrow> ord CHR '':'' \<notin> set (host r2))
       \<and> py_strip_char (ord CHR ''.'') (py_strip (host r2)) = host r2
       \<and> length (port r2) \<le> 4300
       \<and> (username r2 @ host r2 @ port r2 = [] \<longrightarrow> path r2 = lit ''/'')
       \<and> (username r2 @ host r2 @ port r2 \<noteq> [] \<longrightarrow>
            \<not> is_separator (hd (username r2 @ host r2 @ port r2)))
       \<and> \<not> py_isspace (last (to_string r2))"
    using e1 e3 e4 unfolding e2 by simp
  have "parse L (to_string r2) = Inr r2"
    by (rule reparse_serialization [of L e r2, OF pe oe he])
  then have c: "parse L (lit ''http:///?q'') = Inr r2"
    unfolding te .
  from p ts a pm b pe c
  show "parse L (lit ''HTTP://User:pw@Example.COM:8080/a/./b/../c?q=1#frag'') =
         Inr \<lparr>scheme = lit ''http'', username = lit ''User'', password = lit ''pw'',
              host = lit ''example.com'', port = lit ''8080'', path = lit ''/a/c'',
              query = lit ''q=1'', fragment = lit ''frag'', opaque = []\<rparr>
     \<and> to_string \<lparr>scheme = lit ''http'', username = lit ''User'', password = lit ''pw'',
              host = lit ''example.com'', port = lit ''8080'', path = lit ''/a/c'',
              query = lit ''q=1'', fragment = lit ''frag'', opaque = []\<rparr>
         = lit ''http://User:pw@example.com:8080/a/c?q=1#frag''
     \<and> parse L (lit ''http://User:pw@example.com:8080/a/c?q=1#frag'') =
         Inr \<lparr>scheme = lit ''http'', username = lit ''User'', password = lit ''pw'',
              host = lit ''example.com'', port = lit ''8080'', path = lit ''/a/c'',
              query = lit ''q=1'', fragment = lit ''frag'', opaque = []\<rparr>
     \<and> parse L (lit '' MailTo:Someone@Example.COM'') =
         Inr \<lparr>scheme = lit ''mailto'', username = [], password = [], host = [], port = [],
              path = [], query = [], fragment = [], opaque = lit ''Someone@Example.COM''\<rparr>
     \<and> parse L (lit ''mailto:Someone@Example.COM'') =
         Inr \<lparr>scheme = lit ''mailto'', username = [], password = [], host = [], port = [],
              path = [], query = [], fragment = [], opaque = lit ''Someone@Example.COM''\<rparr>
     \<and> parse L (lit ''http://?q'') =
         Inr \<lparr>scheme = lit ''http'', username = [], password = [], host = [], port = [],
              path = lit ''/'', query = lit ''q'', fragment = [], opaque = []\<rparr>
     \<and> parse L (lit ''http:///?q'') =
         Inr \<lparr>scheme = lit ''http'', username = [], password = [], host = [], port = [],
              path = lit ''/'', query = lit ''q'', fragment = [], opaque = []\<rparr>"
    unfolding s_def m_def e_def r0_def r1_def r2_def by blast
qed

text \<open>
  The claim as the specification words it fails. \<open>to_string\<close> writes the host of
  \<open>http://[::1]/x\<close> without its brackets, and the last colon of \<open>http://::1/x\<close> splits
  host and port. It writes a result whose opaque part is empty, that of \<open>mailto:\<close>, in the
  hierarchical form \<open>mailto:///\<close>, whose three slashes are the opaque part of the second
  result.
\<close>

theorem reparse_serialization_counterexample:
  "parse ascii_lib (lit ''http://[::1]/x'') =
     Inr \<lparr>scheme = lit ''http'', username = [], password = [], host = lit ''::1'', port = [],
          path = lit ''/x'', query = [], fragment = [], opaque = []\<rparr>
   \<and> to_string \<lparr>scheme = lit ''http'', username = [], password = [], host = lit ''::1'',
          port = [], path = lit ''/x'', query = [], fragment = [], opaque = []\<rparr>
       = lit ''http://::1/x''
   \<and> parse ascii_lib (lit ''http://::1/x'') =
     Inr \<lparr>scheme = lit ''http'', username = [], password = [], host = lit '':'',
          port = lit ''1'', path = lit ''/x'', query = [], fragment = [], opaque = []\<rparr>
   \<and> parse ascii_lib (to_string \<lparr>scheme = lit ''http'', username = [], password = [],
          host = lit ''::1'', port = [], path = lit ''/x'', query = [], fragment = [],
          opaque = []\<rparr>)
       \<noteq> parse ascii_lib (lit ''http://[::1]/x'')
   \<and> parse ascii_lib (lit ''mailto:'') =
     Inr \<lparr>scheme = lit ''mailto'', username = [], password = [], host = [], port = [],
          path = [], query = [], fragment = [], opaque = []\<rparr>
   \<and> to_string \<lparr>scheme = lit ''mailto'', username = [], password = [], host = [], port = [],
          path = [], query = [], fragment = [], opaque = []\<rparr>
       = lit ''mailto:///''
   \<and> parse ascii_lib (lit ''mailto:///'') =
     Inr \<lparr>scheme = lit ''mailto'', username = [], password = [], host = [], port = [],
          path = [], query = [], fragment = [], opaque = lit ''///''\<rparr>"
  by (simp add: parse_eval to_string_def py_str.simps)

end
